theory Spec2Isabelle
  imports Main "HOL-Library.AList" "HOL-Library.Char_ord" "HOL-Library.List_Lexorder" "HOL-Library.Product_Lexorder"
begin

section \<open>Python values\<close>

text \<open>
  The notebooks handle the values that \<^verbatim>\<open>resp.json()\<close> returns. They are modelled
  by one datatype; \<open>JNull\<close> is Python's \<^verbatim>\<open>None\<close>, and an object is an association
  list in insertion order (a Python dict: its keys are distinct). JSON numbers are the
  integers; floats are not modelled. A string is a list of characters with code points
  below 256, which is what a header value decoded as Latin-1 is.
\<close>

datatype json =
    JNull
  | JBool bool
  | JInt int
  | JStr string
  | JArr "json list"
  | JObj "(string \<times> json) list"

text \<open>
  Exceptions are values. The two \<^verbatim>\<open>RuntimeError\<close>s of the source keep the values their
  messages interpolate.
\<close>

datatype error =
    TokenRefreshFailed int string
  | HubSpotApiError int string string
  | JSONDecodeError
  | KeyError string
  | TypeError
  | AttributeError
  | ValueError
  | OverflowError
  | RequestException string
  | SparkException string

text \<open>Truth value of a Python object (\<^verbatim>\<open>if x\<close>, \<^verbatim>\<open>not x\<close>, \<^verbatim>\<open>x or y\<close>).\<close>

fun truthy :: "json \<Rightarrow> bool" where
  "truthy JNull = False"
| "truthy (JBool b) = b"
| "truthy (JInt n) = (n \<noteq> 0)"
| "truthy (JStr s) = (s \<noteq> [])"
| "truthy (JArr xs) = (xs \<noteq> [])"
| "truthy (JObj kvs) = (kvs \<noteq> [])"

text \<open>\<^verbatim>\<open>x.get(k)\<close>: only a dict has the method; a missing key gives \<^verbatim>\<open>None\<close>.\<close>

fun py_get :: "json \<Rightarrow> string \<Rightarrow> error + json" where
  "py_get (JObj kvs) k = Inr (case map_of kvs k of None \<Rightarrow> JNull | Some v \<Rightarrow> v)"
| "py_get _ k = Inl AttributeError"

text \<open>\<^verbatim>\<open>x.get(k, [])\<close> with a key that may be \<^verbatim>\<open>None\<close> (never a key of a decoded object).\<close>

fun py_get_list :: "json \<Rightarrow> string option \<Rightarrow> error + json" where
  "py_get_list (JObj kvs) None = Inr (JArr [])"
| "py_get_list (JObj kvs) (Some k) = Inr (case map_of kvs k of None \<Rightarrow> JArr [] | Some v \<Rightarrow> v)"
| "py_get_list _ k = Inl AttributeError"

text \<open>\<^verbatim>\<open>x["k"]\<close> with a string key.\<close>

fun py_getitem :: "json \<Rightarrow> string \<Rightarrow> error + json" where
  "py_getitem (JObj kvs) k = (case map_of kvs k of None \<Rightarrow> Inl (KeyError k) | Some v \<Rightarrow> Inr v)"
| "py_getitem _ k = Inl TypeError"

text \<open>\<^verbatim>\<open>x["k"] = v\<close> with a string key: a dict keeps the key's place or appends it.\<close>

fun py_setitem :: "json \<Rightarrow> string \<Rightarrow> json \<Rightarrow> error + json" where
  "py_setitem (JObj kvs) k v = Inr (JObj (AList.update k v kvs))"
| "py_setitem _ k v = Inl TypeError"

text \<open>\<^verbatim>\<open>x or {}\<close>.\<close>

definition or_empty_dict :: "json \<Rightarrow> json" where
  "or_empty_dict x = (if truthy x then x else JObj [])"

text \<open>
  The elements that iterating over a value yields (\<^verbatim>\<open>out.extend(x)\<close>, a comprehension):
  a list gives its elements, a string its characters, a dict its keys; the rest is not
  iterable.
\<close>

fun py_iter :: "json \<Rightarrow> error + json list" where
  "py_iter (JArr xs) = Inr xs"
| "py_iter (JStr s) = Inr (map (\<lambda>c. JStr [c]) s)"
| "py_iter (JObj kvs) = Inr (map (\<lambda>kv. JStr (fst kv)) kvs)"
| "py_iter _ = Inl TypeError"

text \<open>
  \<^verbatim>\<open>s.isdigit()\<close>: every character is a digit and there is at least one. Below 256
  the digits are \<^verbatim>\<open>0\<close> to \<^verbatim>\<open>9\<close> and the superscripts two, three and one.
\<close>

definition digit_char :: "char \<Rightarrow> bool" where
  "digit_char c = (CHR ''0'' \<le> c \<and> c \<le> CHR ''9'')"

definition isdigit_char :: "char \<Rightarrow> bool" where
  "isdigit_char c = (digit_char c \<or> c = CHR 0xB2 \<or> c = CHR 0xB3 \<or> c = CHR 0xB9)"

definition isdigit :: "string \<Rightarrow> bool" where
  "isdigit s = (s \<noteq> [] \<and> list_all isdigit_char s)"

definition int_of_digits :: "string \<Rightarrow> int" where
  "int_of_digits s = foldl (\<lambda>a c. 10 * a + (of_char c - 48)) 0 s"

text \<open>
  \<^verbatim>\<open>int(s)\<close> on a string for which \<^verbatim>\<open>isdigit()\<close> holds (the only use the notebooks
  make of it). A superscript digit is no decimal digit, and a string longer than the
  interpreter's limit on digits (4300 unless configured, 0 for none) is refused; both
  raise \<^verbatim>\<open>ValueError\<close>.
\<close>

definition py_int :: "nat \<Rightarrow> string \<Rightarrow> error + int" where
  "py_int max_str_digits s =
     (if \<not> list_all digit_char s then Inl ValueError
      else if 0 < max_str_digits \<and> max_str_digits < length s then Inl ValueError
      else Inr (int_of_digits s))"

text \<open>
  \<^verbatim>\<open>s.upper()\<close>. Two characters below 256 have their capital above 255 (the micro
  sign and the y with diaeresis); what they become is left to the parameter.
\<close>

definition upper_char :: "(char \<Rightarrow> string) \<Rightarrow> char \<Rightarrow> string" where
  "upper_char outside c =
     (if (CHR ''a'' \<le> c \<and> c \<le> CHR ''z'') \<or> (CHR 0xE0 \<le> c \<and> c \<le> CHR 0xFE \<and> c \<noteq> CHR 0xF7)
      then [char_of (of_char c - (32::nat))]
      else if c = CHR 0xDF then ''SS''
      else if c = CHR 0xB5 \<or> c = CHR 0xFF then outside c
      else [c])"

definition upper :: "(char \<Rightarrow> string) \<Rightarrow> string \<Rightarrow> string" where
  "upper outside s = concat (map (upper_char outside) s)"

text \<open>The decimal writing of an integer.\<close>

fun decimal_nat :: "nat \<Rightarrow> string" where
  "decimal_nat n =
     (if n < 10 then [char_of (48 + n)] else decimal_nat (n div 10) @ [char_of (48 + n mod 10)])"

definition decimal :: "int \<Rightarrow> string" where
  "decimal i = (if i < 0 then CHR ''-'' # decimal_nat (nat (- i)) else decimal_nat (nat i))"

section \<open>The outside world\<close>

record response =
  status_code :: int
  body_text :: string
  body_json :: "json option"
  header :: "string \<Rightarrow> string option"

text \<open>
  \<open>body_json\<close> is what \<^verbatim>\<open>resp.json()\<close> returns, \<open>None\<close> when it raises;
  \<open>header\<close> is \<^verbatim>\<open>resp.headers.get\<close>.
\<close>

record http_request =
  http_method :: string
  url :: string
  req_headers :: "(string \<times> string) list"
  params :: "(string \<times> json) list option"
  json_body :: "json option"
  timeout :: int

datatype save_mode = Append | Overwrite

record bronze_row =
  raw :: json
  ingested_at :: int
  row_entity :: string

record watermark_row =
  entity :: string
  watermark_type :: string
  watermark_value :: "string option"
  updated_at :: "int option"

text \<open>What the notebooks print, with the values their f-strings interpolate.\<close>

datatype message =
    NoRecordsToWrite string
  | WroteRows string nat string
  | RevenueFetchFailed json error
  | WatermarkMoved string json
  | NoNewRows string "string option"
  | FullLoadComplete
  | IncrementalLoadComplete

datatype event =
    TokenPost string "(string \<times> string) list"
  | ApiCall http_request
  | Sleep int
  | Print message
  | DeltaSave string save_mode "bronze_row list"
  | CreateSchema string string
  | CreateTable string string string string
  | WatermarkSave "watermark_row list"

text \<open>
  The environment a run meets: the widget values, the secrets, and what each call to the
  outside answers. The \<open>n\<close>-th call to the token endpoint, the \<open>n\<close>-th call to the API
  and the \<open>n\<close>-th Spark write or statement are answered by position, so that every
  sequence of answers is an environment; \<open>Inl\<close> is an exception of the library
  (a timeout, a refused connection). Some library behaviour is not spelled out and is a
  parameter: \<open>py_repr\<close> is \<^verbatim>\<open>str(x)\<close> on a value that is not a string, \<open>array_gt\<close>
  is \<^verbatim>\<open>>\<close> on two lists (it may raise), \<open>upper_outside\<close> is the capital of the two
  characters whose capital is above 255, \<open>spark_string\<close> is the string Spark stores in a
  string column for a value that is neither a string nor an integer, and \<open>spark_rows\<close>
  are the rows \<^verbatim>\<open>spark.read.json\<close> makes of a record that is neither an object nor a
  list of objects. \<open>int_max_str_digits\<close> is the interpreter's limit on the digits of
  \<^verbatim>\<open>int(s)\<close>.
\<close>

record env =
  base_url :: string
  bronze_base_path :: string
  catalog :: string
  schema :: string
  client_id_key :: string
  client_secret_key :: string
  refresh_token_key :: string
  secret :: "string \<Rightarrow> string"
  token_endpoint :: "nat \<Rightarrow> error + response"
  api_endpoint :: "nat \<Rightarrow> error + response"
  spark_outcome :: "nat \<Rightarrow> error option"
  clock :: "nat \<Rightarrow> int"
  py_repr :: "json \<Rightarrow> string"
  array_gt :: "json list \<Rightarrow> json list \<Rightarrow> error + bool"
  upper_outside :: "char \<Rightarrow> string"
  spark_string :: "json \<Rightarrow> string"
  spark_rows :: "json \<Rightarrow> json list"
  int_max_str_digits :: nat

text \<open>
  The state a run changes: how many answers it has consumed, everything it did in order,
  the watermark table, the bronze tables by path, and the notebook's global
  \<^verbatim>\<open>campaigns\<close>.
\<close>

record world =
  token_calls :: nat
  api_calls :: nat
  spark_calls :: nat
  clock_reads :: nat
  trace :: "event list"
  watermarks :: "watermark_row list"
  bronze :: "string \<Rightarrow> bronze_row list"
  campaigns :: "json list"

definition emit :: "event \<Rightarrow> world \<Rightarrow> world" where
  "emit ev w = w\<lparr>trace := trace w @ [ev]\<rparr>"

definition py_print :: "message \<Rightarrow> world \<Rightarrow> world" where
  "py_print m w = emit (Print m) w"

text \<open>
  \<^verbatim>\<open>time.sleep(s)\<close> with an integer: a negative length and one that does not fit the
  clock's 64-bit nanoseconds are refused.
\<close>

definition time_sleep :: "int \<Rightarrow> world \<Rightarrow> error option \<times> world" where
  "time_sleep s w =
     (if s < 0 then (Some ValueError, w)
      else if 9223372037 \<le> s then (Some OverflowError, w)
      else (None, emit (Sleep s) w))"

definition py_str :: "env \<Rightarrow> json \<Rightarrow> string" where
  "py_str E x = (case x of JStr s \<Rightarrow> s | _ \<Rightarrow> py_repr E x)"

definition requests_post_token :: "env \<Rightarrow> string \<Rightarrow> (string \<times> string) list \<Rightarrow> world \<Rightarrow> (error + response) \<times> world" where
  "requests_post_token E u payload w =
     (token_endpoint E (token_calls w),
      emit (TokenPost u payload) (w\<lparr>token_calls := Suc (token_calls w)\<rparr>))"

definition requests_request :: "env \<Rightarrow> http_request \<Rightarrow> world \<Rightarrow> (error + response) \<times> world" where
  "requests_request E rq w =
     (api_endpoint E (api_calls w),
      emit (ApiCall rq) (w\<lparr>api_calls := Suc (api_calls w)\<rparr>))"

section \<open>00_hubspot_config_and_scopes: token and request\<close>

definition get_access_token :: "env \<Rightarrow> world \<Rightarrow> (error + json) \<times> world" where
  "get_access_token E w =
     (let u = base_url E @ ''/oauth/v1/token'';
          payload = [(''grant_type'', ''refresh_token''),
                     (''client_id'', secret E (client_id_key E)),
                     (''client_secret'', secret E (client_secret_key E)),
                     (''refresh_token'', secret E (refresh_token_key E))]
      in case requests_post_token E u payload w of
           (Inl e, w1) \<Rightarrow> (Inl e, w1)
         | (Inr resp, w1) \<Rightarrow>
             if status_code resp \<ge> 300
             then (Inl (TokenRefreshFailed (status_code resp) (body_text resp)), w1)
             else (case body_json resp of
                     None \<Rightarrow> (Inl JSONDecodeError, w1)
                   | Some j \<Rightarrow> (py_getitem j ''access_token'', w1)))"

definition transient_status :: "int \<Rightarrow> bool" where
  "transient_status s = (s \<in> {429, 500, 502, 503, 504})"

text \<open>
  The delay of the retry after the failed attempt number \<open>attempt\<close> (counted from 1):
  \<^verbatim>\<open>int(retry_after) if retry_after and retry_after.isdigit() else int(min(60, 2 ** attempt))\<close>.
\<close>

definition sleep_s :: "env \<Rightarrow> response \<Rightarrow> int \<Rightarrow> error + int" where
  "sleep_s E resp attempt =
     (case header resp ''Retry-After'' of
        None \<Rightarrow> Inr (min 60 (2 ^ nat attempt))
      | Some retry_after \<Rightarrow>
          if retry_after \<noteq> [] \<and> isdigit retry_after
          then py_int (int_max_str_digits E) retry_after
          else Inr (min 60 (2 ^ nat attempt)))"

text \<open>\<^verbatim>\<open>resp.json() if resp.text else {}\<close>.\<close>

definition decoded_body :: "response \<Rightarrow> error + json" where
  "decoded_body resp =
     (if body_text resp \<noteq> []
      then (case body_json resp of None \<Rightarrow> Inl JSONDecodeError | Some j \<Rightarrow> Inr j)
      else Inr (JObj []))"

text \<open>
  The \<^verbatim>\<open>while True\<close> loop of \<^verbatim>\<open>hs_request\<close>; \<open>attempt0\<close> is \<^verbatim>\<open>attempt\<close> on entry
  to the loop body.
\<close>

function hs_request_loop :: "env \<Rightarrow> http_request \<Rightarrow> string \<Rightarrow> int \<Rightarrow> int \<Rightarrow> world \<Rightarrow> (error + json) \<times> world" where
  "hs_request_loop E rq path max_retries attempt0 w =
     (let attempt = attempt0 + 1 in
      case requests_request E rq w of
        (Inl e, w1) \<Rightarrow> (Inl e, w1)
      | (Inr resp, w1) \<Rightarrow>
          if status_code resp < 300 then (decoded_body resp, w1)
          else if transient_status (status_code resp) \<and> attempt \<le> max_retries
          then (case sleep_s E resp attempt of
                  Inl e \<Rightarrow> (Inl e, w1)
                | Inr d \<Rightarrow>
                    (case time_sleep d w1 of
                       (Some e, w2) \<Rightarrow> (Inl e, w2)
                     | (None, w2) \<Rightarrow> hs_request_loop E rq path max_retries attempt w2))
          else (Inl (HubSpotApiError (status_code resp) path (body_text resp)), w1))"
  by pat_completeness auto
termination
  by (relation "measure (\<lambda>(E, rq, path, max_retries, attempt0, w). nat (max_retries - attempt0))") auto

definition hs_request :: "env \<Rightarrow> string \<Rightarrow> string \<Rightarrow> (string \<times> json) list option \<Rightarrow> json option \<Rightarrow> int \<Rightarrow> int \<Rightarrow> world \<Rightarrow> (error + json) \<times> world" where
  "hs_request E meth path ps body max_retries timeout_s w =
     (case get_access_token E w of
        (Inl e, w1) \<Rightarrow> (Inl e, w1)
      | (Inr token, w1) \<Rightarrow>
          hs_request_loop E
            \<lparr>http_method = upper (upper_outside E) meth, url = base_url E @ path,
             req_headers = [(''Authorization'', ''Bearer '' @ py_str E token)],
             params = ps, json_body = body, timeout = timeout_s\<rparr>
            path max_retries 0 w1)"


section \<open>00_hubspot_config_and_scopes: pagination\<close>

text \<open>\<^verbatim>\<open>(((data.get("paging") or {}).get("next") or {}).get("after"))\<close>.\<close>

definition paging_next_after :: "json \<Rightarrow> error + json" where
  "paging_next_after data =
     (case py_get data ''paging'' of
        Inl e \<Rightarrow> Inl e
      | Inr paging \<Rightarrow>
          (case py_get (or_empty_dict paging) ''next'' of
             Inl e \<Rightarrow> Inl e
           | Inr nxt \<Rightarrow> py_get (or_empty_dict nxt) ''after''))"

text \<open>
  The \<^verbatim>\<open>while True\<close> loop of \<^verbatim>\<open>paginate_get\<close>, with the dict \<^verbatim>\<open>p\<close> and the list
  \<^verbatim>\<open>out\<close> as they stand on entry to the loop body. Nothing bounds the number of pages:
  the loop returns \<open>None\<close> when the cursors never end.
\<close>

partial_function (option) paginate_loop :: "env \<Rightarrow> string \<Rightarrow> string option \<Rightarrow> (string \<times> json) list \<Rightarrow> json list \<Rightarrow> world \<Rightarrow> ((error + json list) \<times> world) option" where
  "paginate_loop E path page_key p out w =
     (case hs_request E ''GET'' path (Some p) None 6 120 w of
        (Inl e, w1) \<Rightarrow> Some (Inl e, w1)
      | (Inr data, w1) \<Rightarrow>
          (case py_get_list data page_key of
             Inl e \<Rightarrow> Some (Inl e, w1)
           | Inr items \<Rightarrow>
               (case py_iter items of
                  Inl e \<Rightarrow> Some (Inl e, w1)
                | Inr xs \<Rightarrow>
                    (case paging_next_after data of
                       Inl e \<Rightarrow> Some (Inl e, w1)
                     | Inr after \<Rightarrow>
                         if \<not> truthy after then Some (Inr (out @ xs), w1)
                         else paginate_loop E path page_key (AList.update ''after'' after p) (out @ xs) w1))))"

definition paginate_get :: "env \<Rightarrow> string \<Rightarrow> (string \<times> json) list option \<Rightarrow> string option \<Rightarrow> world \<Rightarrow> ((error + json list) \<times> world) option" where
  "paginate_get E path ps page_key w =
     paginate_loop E path page_key (case ps of None \<Rightarrow> [] | Some d \<Rightarrow> d) [] w"

section \<open>00_hubspot_config_and_scopes: bronze writer and watermark table\<close>

text \<open>\<^verbatim>\<open>datetime.now(timezone.utc)\<close>.\<close>

definition utc_now :: "env \<Rightarrow> world \<Rightarrow> int \<times> world" where
  "utc_now E w = (clock E (clock_reads w), w\<lparr>clock_reads := Suc (clock_reads w)\<rparr>)"

text \<open>A Spark write or statement: it is attempted, and the environment says if it raises.\<close>

definition spark_run :: "env \<Rightarrow> event \<Rightarrow> world \<Rightarrow> error option \<times> world" where
  "spark_run E ev w = (spark_outcome E (spark_calls w), emit ev (w\<lparr>spark_calls := Suc (spark_calls w)\<rparr>))"

text \<open>
  The rows \<^verbatim>\<open>spark.read.json\<close> makes of one record dumped as JSON: an object is one
  row, a list of objects one row per element.
\<close>

fun is_dict :: "json \<Rightarrow> bool" where
  "is_dict (JObj kvs) = True"
| "is_dict _ = False"

definition rows_of_record :: "env \<Rightarrow> json \<Rightarrow> json list" where
  "rows_of_record E r =
     (case r of
        JObj kvs \<Rightarrow> [r]
      | JArr xs \<Rightarrow> if list_all is_dict xs then xs else spark_rows E r
      | _ \<Rightarrow> spark_rows E r)"

text \<open>
  \<^verbatim>\<open>records\<close> is whatever the caller passes: a list built by the paginator, or the
  decoded body itself. The rows of its elements are written, tagged with the ingestion
  time and the entity; \<^verbatim>\<open>df.count()\<close> is their number.
\<close>

definition write_bronze_delta :: "env \<Rightarrow> json \<Rightarrow> string \<Rightarrow> save_mode \<Rightarrow> world \<Rightarrow> (error + unit) \<times> world" where
  "write_bronze_delta E records ent mode w =
     (if \<not> truthy records then (Inr (), py_print (NoRecordsToWrite ent) w)
      else
        case utc_now E w of (ingest_ts, w1) \<Rightarrow>
        case py_iter records of
          Inl e \<Rightarrow> (Inl e, w1)
        | Inr rs \<Rightarrow>
            let df = map (\<lambda>r. \<lparr>raw = r, ingested_at = ingest_ts, row_entity = ent\<rparr>)
                         (concat (map (rows_of_record E) rs));
                target_path = bronze_base_path E @ ''/'' @ ent
            in case spark_run E (DeltaSave target_path mode df) w1 of
                 (Some e, w2) \<Rightarrow> (Inl e, w2)
               | (None, w2) \<Rightarrow>
                   let w3 = w2\<lparr>bronze := (bronze w2)
                              (target_path := (case mode of Append \<Rightarrow> bronze w2 target_path @ df
                                                          | Overwrite \<Rightarrow> df))\<rparr>
                   in if catalog E \<noteq> [] \<and> schema E \<noteq> []
                      then (case spark_run E (CreateSchema (catalog E) (schema E)) w3 of
                              (Some e, w4) \<Rightarrow> (Inl e, w4)
                            | (None, w4) \<Rightarrow>
                                (case spark_run E (CreateTable (catalog E) (schema E) ent target_path) w4 of
                                   (Some e, w5) \<Rightarrow> (Inl e, w5)
                                 | (None, w5) \<Rightarrow>
                                     (Inr (), py_print (WroteRows ent (length df) target_path) w5)))
                      else (Inr (), py_print (WroteRows ent (length df) target_path) w3))"

text \<open>
  \<^verbatim>\<open>orderBy(F.col("updated_at").desc_nulls_last())\<close>: later timestamps first, rows
  without one last. Spark leaves the order of rows with equal timestamps open; the model
  keeps them in table order.
\<close>

definition desc_nulls_last :: "watermark_row \<Rightarrow> nat \<times> int" where
  "desc_nulls_last r = (case updated_at r of None \<Rightarrow> (1, 0) | Some t \<Rightarrow> (0, - t))"

definition get_watermark :: "world \<Rightarrow> string \<Rightarrow> string \<Rightarrow> string option" where
  "get_watermark w ent default_iso =
     (let df = watermarks w;
          row = take 1 (sort_key desc_nulls_last (filter (\<lambda>r. entity r = ent) df))
      in case row of [] \<Rightarrow> Some default_iso | r # rest \<Rightarrow> watermark_value r)"

definition epoch_iso :: string where
  "epoch_iso = ''1970-01-01T00:00:00.000Z''"

text \<open>
  \<open>get_watermark\<close> returns \<open>None\<close> for a row whose value is null. \<^verbatim>\<open>set_watermark\<close>
  receives whatever the caller computed; \<^verbatim>\<open>createDataFrame\<close> takes any value in a
  string column and Spark stores its string: the digits of an integer, and for the other
  values what \<open>spark_string\<close> says.
\<close>

definition string_column :: "env \<Rightarrow> json \<Rightarrow> string option" where
  "string_column E x =
     (case x of
        JNull \<Rightarrow> None
      | JStr s \<Rightarrow> Some s
      | JInt n \<Rightarrow> Some (decimal n)
      | _ \<Rightarrow> Some (spark_string E x))"

definition set_watermark :: "env \<Rightarrow> string \<Rightarrow> string \<Rightarrow> json \<Rightarrow> world \<Rightarrow> (error + unit) \<times> world" where
  "set_watermark E ent wm_type wm_value w =
     (case utc_now E w of (now_ts, w1) \<Rightarrow>
      let df = watermarks w1;
          new_row = \<lparr>entity = ent, watermark_type = wm_type,
                     watermark_value = string_column E wm_value, updated_at = Some now_ts\<rparr>;
          remaining = filter (\<lambda>r. entity r \<noteq> ent) df;
          out = remaining @ [new_row]
      in case spark_run E (WatermarkSave out) w1 of
           (Some e, w2) \<Rightarrow> (Inl e, w2)
         | (None, w2) \<Rightarrow> (Inr (), w2\<lparr>watermarks := out\<rparr>))"

section \<open>02_hubspot_incremental_load_crm\<close>

text \<open>The request body that one turn of the loop of \<^verbatim>\<open>crm_search_since\<close> builds.\<close>

definition search_body :: "json \<Rightarrow> string list option \<Rightarrow> int \<Rightarrow> json \<Rightarrow> json" where
  "search_body since_iso properties limit after =
     (let body = [(''filterGroups'',
                    JArr [JObj [(''filters'',
                      JArr [JObj [(''propertyName'', JStr ''hs_lastmodifieddate''),
                                  (''operator'', JStr ''GTE''),
                                  (''value'', since_iso)]])]]),
                  (''sorts'', JArr [JStr ''hs_lastmodifieddate'']),
                  (''limit'', JInt limit)];
          body1 = (case properties of
                     Some (x # xs) \<Rightarrow> AList.update ''properties'' (JArr (map JStr (x # xs))) body
                   | _ \<Rightarrow> body);
          body2 = (if truthy after then AList.update ''after'' after body1 else body1)
      in JObj body2)"

text \<open>
  The \<^verbatim>\<open>while True\<close> loop of \<^verbatim>\<open>crm_search_since\<close>, with \<^verbatim>\<open>after\<close> and \<^verbatim>\<open>out\<close>
  as they stand on entry to the loop body; like the paginator it has no bound.
\<close>

partial_function (option) crm_search_loop :: "env \<Rightarrow> string \<Rightarrow> json \<Rightarrow> string list option \<Rightarrow> int \<Rightarrow> json \<Rightarrow> json list \<Rightarrow> world \<Rightarrow> ((error + json list) \<times> world) option" where
  "crm_search_loop E object_name since_iso properties limit after out w =
     (case hs_request E ''POST'' (''/crm/v3/objects/'' @ object_name @ ''/search'') None
             (Some (search_body since_iso properties limit after)) 6 120 w of
        (Inl e, w1) \<Rightarrow> Some (Inl e, w1)
      | (Inr data, w1) \<Rightarrow>
          (case py_get_list data (Some ''results'') of
             Inl e \<Rightarrow> Some (Inl e, w1)
           | Inr results \<Rightarrow>
               (case py_iter results of
                  Inl e \<Rightarrow> Some (Inl e, w1)
                | Inr xs \<Rightarrow>
                    (case paging_next_after data of
                       Inl e \<Rightarrow> Some (Inl e, w1)
                     | Inr after' \<Rightarrow>
                         if \<not> truthy after' then Some (Inr (out @ xs), w1)
                         else crm_search_loop E object_name since_iso properties limit after' (out @ xs) w1))))"

definition crm_search_since :: "env \<Rightarrow> string \<Rightarrow> json \<Rightarrow> string list option \<Rightarrow> int \<Rightarrow> world \<Rightarrow> ((error + json list) \<times> world) option" where
  "crm_search_since E object_name since_iso properties limit w =
     crm_search_loop E object_name since_iso properties limit JNull [] w"

text \<open>
  \<^verbatim>\<open>a > b\<close> on two values: strings compare by code points, numbers (a bool is a
  number) by value, lists by \<open>array_gt\<close>; every other pair raises.
\<close>

fun py_num :: "json \<Rightarrow> int option" where
  "py_num (JBool b) = Some (if b then 1 else 0)"
| "py_num (JInt n) = Some n"
| "py_num _ = None"

fun py_gt :: "env \<Rightarrow> json \<Rightarrow> json \<Rightarrow> error + bool" where
  "py_gt E (JStr s) (JStr t) = Inr (t < s)"
| "py_gt E (JArr xs) (JArr ys) = array_gt E xs ys"
| "py_gt E a b = (case (py_num a, py_num b) of (Some m, Some n) \<Rightarrow> Inr (n < m) | _ \<Rightarrow> Inl TypeError)"

text \<open>
  \<^verbatim>\<open>props = r.get("properties") or {}\<close> and \<^verbatim>\<open>v = props.get("hs_lastmodifieddate")\<close>.
\<close>

definition record_lastmodified :: "json \<Rightarrow> error + json" where
  "record_lastmodified r =
     (case py_get r ''properties'' of
        Inl e \<Rightarrow> Inl e
      | Inr props \<Rightarrow> py_get (or_empty_dict props) ''hs_lastmodifieddate'')"

text \<open>The \<^verbatim>\<open>for r in rows\<close> loop of \<^verbatim>\<open>incremental_object\<close>; \<open>JNull\<close> is \<^verbatim>\<open>None\<close>.\<close>

fun max_lastmodified :: "env \<Rightarrow> json list \<Rightarrow> json \<Rightarrow> error + json" where
  "max_lastmodified E [] max_wm = Inr max_wm"
| "max_lastmodified E (r # rs) max_wm =
     (case record_lastmodified r of
        Inl e \<Rightarrow> Inl e
      | Inr v \<Rightarrow>
          if truthy v
          then (if max_wm = JNull then max_lastmodified E rs v
                else (case py_gt E v max_wm of
                        Inl e \<Rightarrow> Inl e
                      | Inr b \<Rightarrow> max_lastmodified E rs (if b then v else max_wm)))
          else max_lastmodified E rs max_wm)"

definition json_of_watermark :: "string option \<Rightarrow> json" where
  "json_of_watermark s = (case s of None \<Rightarrow> JNull | Some v \<Rightarrow> JStr v)"

definition incremental_object :: "env \<Rightarrow> string \<Rightarrow> string \<Rightarrow> world \<Rightarrow> ((error + unit) \<times> world) option" where
  "incremental_object E object_name ent w =
     (let since = get_watermark w ent epoch_iso in
      case crm_search_since E object_name (json_of_watermark since) None 100 w of
        None \<Rightarrow> None
      | Some (Inl e, w1) \<Rightarrow> Some (Inl e, w1)
      | Some (Inr rows, w1) \<Rightarrow>
          (case write_bronze_delta E (JArr rows) ent Append w1 of
             (Inl e, w2) \<Rightarrow> Some (Inl e, w2)
           | (Inr u, w2) \<Rightarrow>
               if rows \<noteq> []
               then (case max_lastmodified E rows JNull of
                       Inl e \<Rightarrow> Some (Inl e, w2)
                     | Inr max_wm \<Rightarrow>
                         if truthy max_wm
                         then (case set_watermark E ent ''hs_lastmodifieddate'' max_wm w2 of
                                 (Inl e, w3) \<Rightarrow> Some (Inl e, w3)
                               | (Inr u', w3) \<Rightarrow> Some (Inr (), py_print (WatermarkMoved ent max_wm) w3))
                         else Some (Inr (), w2))
               else Some (Inr (), py_print (NoNewRows ent since) w2)))"

text \<open>
  A notebook's top-level statements run in order; an exception that escapes one of them
  ends the run.
\<close>

fun run_script :: "(world \<Rightarrow> ((error + unit) \<times> world) option) list \<Rightarrow> world \<Rightarrow> ((error + unit) \<times> world) option" where
  "run_script [] w = Some (Inr (), w)"
| "run_script (s # ss) w =
     (case s w of
        None \<Rightarrow> None
      | Some (Inl e, w1) \<Rightarrow> Some (Inl e, w1)
      | Some (Inr u, w1) \<Rightarrow> run_script ss w1)"

definition incremental_load_steps :: "env \<Rightarrow> (world \<Rightarrow> ((error + unit) \<times> world) option) list" where
  "incremental_load_steps E =
     [incremental_object E ''feedback_submissions'' ''crm_feedback_submissions'',
      \<lambda>w. Some (Inr (), py_print IncrementalLoadComplete w)]"

definition incremental_load :: "env \<Rightarrow> world \<Rightarrow> ((error + unit) \<times> world) option" where
  "incremental_load E w = run_script (incremental_load_steps E) w"

section \<open>01_hubspot_full_load\<close>

text \<open>
  \<^verbatim>\<open>paginate_get\<close> returns a list, so the \<^verbatim>\<open>isinstance(data, dict)\<close> branch of
  \<^verbatim>\<open>load_owners\<close> is never taken.
\<close>

definition load_owners :: "env \<Rightarrow> world \<Rightarrow> ((error + unit) \<times> world) option" where
  "load_owners E w =
     (case paginate_get E ''/crm/v3/owners/'' (Some [(''limit'', JInt 500)]) (Some ''results'') w of
        None \<Rightarrow> None
      | Some (Inr data, w1) \<Rightarrow> Some (write_bronze_delta E (JArr data) ''crm_owners'' Overwrite w1)
      | Some (Inl e, w1) \<Rightarrow>
          (case paginate_get E ''/owners/v2/owners'' (Some [(''count'', JInt 500)]) None w1 of
             None \<Rightarrow> None
           | Some (Inl e', w2) \<Rightarrow> Some (Inl e', w2)
           | Some (Inr data, w2) \<Rightarrow> Some (write_bronze_delta E (JArr data) ''crm_owners'' Overwrite w2)))"

definition load_crm_object :: "env \<Rightarrow> string \<Rightarrow> string \<Rightarrow> world \<Rightarrow> ((error + unit) \<times> world) option" where
  "load_crm_object E object_name ent w =
     (case paginate_get E (''/crm/v3/objects/'' @ object_name)
             (Some [(''limit'', JInt 100), (''archived'', JStr ''false'')]) (Some ''results'') w of
        None \<Rightarrow> None
      | Some (Inl e, w1) \<Rightarrow> Some (Inl e, w1)
      | Some (Inr rows, w1) \<Rightarrow> Some (write_bronze_delta E (JArr rows) ent Overwrite w1))"

definition load_meeting_links :: "env \<Rightarrow> world \<Rightarrow> ((error + unit) \<times> world) option" where
  "load_meeting_links E w =
     (case paginate_get E ''/scheduler/v3/meetings/meeting-links'' (Some [(''limit'', JInt 100)]) (Some ''results'') w of
        None \<Rightarrow> None
      | Some (Inl e, w1) \<Rightarrow> Some (Inl e, w1)
      | Some (Inr rows, w1) \<Rightarrow> Some (write_bronze_delta E (JArr rows) ''scheduler_meeting_links'' Overwrite w1))"

definition load_campaigns :: "env \<Rightarrow> world \<Rightarrow> ((error + json list) \<times> world) option" where
  "load_campaigns E w =
     (case paginate_get E ''/marketing/v3/campaigns'' (Some [(''limit'', JInt 100)]) (Some ''results'') w of
        None \<Rightarrow> None
      | Some (Inl e, w1) \<Rightarrow> Some (Inl e, w1)
      | Some (Inr rows, w1) \<Rightarrow>
          (case write_bronze_delta E (JArr rows) ''marketing_campaigns'' Overwrite w1 of
             (Inl e, w2) \<Rightarrow> Some (Inl e, w2)
           | (Inr u, w2) \<Rightarrow> Some (Inr rows, w2)))"

text \<open>
  The \<^verbatim>\<open>for c in campaigns\<close> loop of \<^verbatim>\<open>load_campaign_revenue\<close>. The \<^verbatim>\<open>try\<close> covers
  the request, the assignment into its result and the append; \<^verbatim>\<open>c.get("id")\<close> is
  outside it.
\<close>

fun revenue_loop :: "env \<Rightarrow> json list \<Rightarrow> json list \<Rightarrow> world \<Rightarrow> (error + json list) \<times> world" where
  "revenue_loop E [] out w = (Inr out, w)"
| "revenue_loop E (c # cs) out w =
     (case py_get c ''id'' of
        Inl e \<Rightarrow> (Inl e, w)
      | Inr guid \<Rightarrow>
          if \<not> truthy guid then revenue_loop E cs out w
          else (case hs_request E ''GET''
                       (''/marketing/v3/campaigns/'' @ py_str E guid @ ''/reports/revenue'')
                       (Some []) None 6 120 w of
                  (Inl e, w1) \<Rightarrow> revenue_loop E cs out (py_print (RevenueFetchFailed guid e) w1)
                | (Inr revenue, w1) \<Rightarrow>
                    (case py_setitem revenue ''_campaignGuid'' guid of
                       Inl e \<Rightarrow> revenue_loop E cs out (py_print (RevenueFetchFailed guid e) w1)
                     | Inr revenue' \<Rightarrow> revenue_loop E cs (out @ [revenue']) w1)))"

definition load_campaign_revenue :: "env \<Rightarrow> json list \<Rightarrow> world \<Rightarrow> (error + unit) \<times> world" where
  "load_campaign_revenue E cs w =
     (case revenue_loop E cs [] w of
        (Inl e, w1) \<Rightarrow> (Inl e, w1)
      | (Inr out, w1) \<Rightarrow> write_bronze_delta E (JArr out) ''marketing_campaign_revenue'' Overwrite w1)"

text \<open>\<^verbatim>\<open>data.get("results", []) if isinstance(data, dict) else data\<close>.\<close>

definition results_or_self :: "json \<Rightarrow> json" where
  "results_or_self data =
     (case data of
        JObj kvs \<Rightarrow> (case map_of kvs ''results'' of None \<Rightarrow> JArr [] | Some v \<Rightarrow> v)
      | _ \<Rightarrow> data)"

definition load_currencies :: "env \<Rightarrow> world \<Rightarrow> (error + unit) \<times> world" where
  "load_currencies E w =
     (case hs_request E ''GET'' ''/settings/v3/currencies'' (Some []) None 6 120 w of
        (Inl e, w1) \<Rightarrow> (Inl e, w1)
      | (Inr data, w1) \<Rightarrow> write_bronze_delta E (results_or_self data) ''settings_currencies'' Overwrite w1)"

definition load_domains :: "env \<Rightarrow> world \<Rightarrow> (error + unit) \<times> world" where
  "load_domains E w =
     (case hs_request E ''GET'' ''/cms/v3/domains'' (Some []) None 6 120 w of
        (Inl e, w1) \<Rightarrow> (Inl e, w1)
      | (Inr data, w1) \<Rightarrow> write_bronze_delta E (results_or_self data) ''cms_domains'' Overwrite w1)"

definition load_tax_rates :: "env \<Rightarrow> world \<Rightarrow> (error + unit) \<times> world" where
  "load_tax_rates E w =
     (case hs_request E ''GET'' ''/crm/v3/taxes/tax-rates'' (Some []) None 6 120 w of
        (Inl e, w1) \<Rightarrow> (Inl e, w1)
      | (Inr data, w1) \<Rightarrow> write_bronze_delta E (results_or_self data) ''tax_rates'' Overwrite w1)"

definition load_comm_pref_definitions :: "env \<Rightarrow> world \<Rightarrow> (error + unit) \<times> world" where
  "load_comm_pref_definitions E w =
     (case hs_request E ''GET'' ''/communication-preferences/v4/definitions''
             (Some [(''includeTranslations'', JStr ''true'')]) None 6 120 w of
        (Inl e, w1) \<Rightarrow> (Inl e, w1)
      | (Inr data, w1) \<Rightarrow> write_bronze_delta E (results_or_self data) ''comm_pref_definitions'' Overwrite w1)"

text \<open>\<^verbatim>\<open>campaigns = load_campaigns()\<close>: the result is kept in the notebook's global.\<close>

definition assign_campaigns :: "env \<Rightarrow> world \<Rightarrow> ((error + unit) \<times> world) option" where
  "assign_campaigns E w =
     (case load_campaigns E w of
        None \<Rightarrow> None
      | Some (Inl e, w1) \<Rightarrow> Some (Inl e, w1)
      | Some (Inr rows, w1) \<Rightarrow> Some (Inr (), w1\<lparr>campaigns := rows\<rparr>))"

text \<open>The statements at the end of the notebook, in their order.\<close>

definition full_load_steps :: "env \<Rightarrow> (world \<Rightarrow> ((error + unit) \<times> world) option) list" where
  "full_load_steps E =
     [load_owners E,
      load_crm_object E ''marketing_events'' ''crm_marketing_events'',
      load_crm_object E ''feedback_submissions'' ''crm_feedback_submissions'',
      load_crm_object E ''partner-clients'' ''crm_partner_clients'',
      load_crm_object E ''partner-services'' ''crm_partner_services'',
      load_meeting_links E,
      assign_campaigns E,
      \<lambda>w. Some (load_campaign_revenue E (campaigns w) w),
      \<lambda>w. Some (load_currencies E w),
      \<lambda>w. Some (load_domains E w),
      \<lambda>w. Some (load_tax_rates E w),
      \<lambda>w. Some (load_comm_pref_definitions E w),
      \<lambda>w. Some (Inr (), py_print FullLoadComplete w)]"

definition full_load :: "env \<Rightarrow> world \<Rightarrow> ((error + unit) \<times> world) option" where
  "full_load E w = run_script (full_load_steps E) w"

section \<open>Observations on a run\<close>

text \<open>
  Two worlds agree on everything but the calls consumed and the trace: the stores, the
  global and the Spark and clock positions.
\<close>

definition same_stores :: "world \<Rightarrow> world \<Rightarrow> bool" where
  "same_stores w w' = (watermarks w' = watermarks w \<and> bronze w' = bronze w \<and> campaigns w' = campaigns w
     \<and> spark_calls w' = spark_calls w \<and> clock_reads w' = clock_reads w)"

fun http_event :: "event \<Rightarrow> bool" where
  "http_event (ApiCall rq) = True"
| "http_event (Sleep d) = True"
| "http_event _ = False"

fun is_token_post :: "event \<Rightarrow> bool" where
  "is_token_post (TokenPost u p) = True"
| "is_token_post _ = False"

text \<open>The delays slept, in order.\<close>

fun sleeps :: "event list \<Rightarrow> int list" where
  "sleeps [] = []"
| "sleeps (Sleep d # evs) = d # sleeps evs"
| "sleeps (ev # evs) = sleeps evs"

text \<open>The token endpoint's answer is one from which \<open>get_access_token\<close> returns a token.\<close>

definition grants_token :: "error + response \<Rightarrow> bool" where
  "grants_token a =
     (case a of
        Inl e \<Rightarrow> False
      | Inr r \<Rightarrow> status_code r < 300 \<and>
          (case body_json r of
             None \<Rightarrow> False
           | Some j \<Rightarrow> (case py_getitem j ''access_token'' of Inl e \<Rightarrow> False | Inr t \<Rightarrow> True)))"

text \<open>The \<^verbatim>\<open>params\<close> of the API calls made, in order.\<close>

fun call_params :: "event list \<Rightarrow> (string \<times> json) list option list" where
  "call_params [] = []"
| "call_params (ApiCall rq # evs) = params rq # call_params evs"
| "call_params (ev # evs) = call_params evs"

text \<open>
  The dict \<^verbatim>\<open>p\<close> of \<^verbatim>\<open>paginate_get\<close> at its call number \<open>i\<close> (from 0), when the
  earlier pages carried the cursors \<open>c 0\<close>, \<open>c 1\<close>, ...
\<close>

fun cursor_params :: "(string \<times> json) list \<Rightarrow> (nat \<Rightarrow> json) \<Rightarrow> nat \<Rightarrow> (string \<times> json) list" where
  "cursor_params p c 0 = p"
| "cursor_params p c (Suc i) = AList.update ''after'' (c i) (cursor_params p c i)"

text \<open>
  \<open>latest_le a b\<close>: the timestamp \<open>b\<close> is at least as recent as \<open>a\<close>, a missing
  timestamp being older than any other.
\<close>

definition latest_le :: "int option \<Rightarrow> int option \<Rightarrow> bool" where
  "latest_le a b = (case a of None \<Rightarrow> True | Some ta \<Rightarrow> (case b of None \<Rightarrow> False | Some tb \<Rightarrow> ta \<le> tb))"

text \<open>Events of the network: a token request, an API call, a sleep between attempts.\<close>

fun net_event :: "event \<Rightarrow> bool" where
  "net_event (TokenPost u p) = True"
| "net_event (ApiCall rq) = True"
| "net_event (Sleep d) = True"
| "net_event _ = False"

text \<open>The tables written to the watermark path, in order.\<close>

fun watermark_saves :: "event list \<Rightarrow> watermark_row list list" where
  "watermark_saves [] = []"
| "watermark_saves (WatermarkSave rows # evs) = rows # watermark_saves evs"
| "watermark_saves (ev # evs) = watermark_saves evs"

text \<open>
  The change-tracking value a record carries: the non-empty string under
  \<^verbatim>\<open>properties.hs_lastmodifieddate\<close>, if there is one. A record is \<open>well_stamped\<close> when
  that field reads as a string, or as a value the loop passes over (missing, null, or
  another false value).
\<close>

definition stamp_of :: "json \<Rightarrow> string option" where
  "stamp_of r =
     (case record_lastmodified r of
        Inr (JStr s) \<Rightarrow> if s = [] then None else Some s
      | _ \<Rightarrow> None)"

definition stamps :: "json list \<Rightarrow> string list" where
  "stamps rows = List.map_filter stamp_of rows"

definition well_stamped :: "json \<Rightarrow> bool" where
  "well_stamped r =
     (case record_lastmodified r of
        Inl e \<Rightarrow> False
      | Inr (JStr s) \<Rightarrow> True
      | Inr v \<Rightarrow> \<not> truthy v)"

text \<open>The requests of the API calls made, in order.\<close>

fun api_requests :: "event list \<Rightarrow> http_request list" where
  "api_requests [] = []"
| "api_requests (ApiCall rq # evs) = rq # api_requests evs"
| "api_requests (ev # evs) = api_requests evs"

text \<open>
  The retry after the failed attempt \<open>attempt\<close> goes ahead: the delay is computed and
  \<^verbatim>\<open>time.sleep\<close> accepts it.
\<close>

definition delay_ok :: "env \<Rightarrow> response \<Rightarrow> int \<Rightarrow> bool" where
  "delay_ok E resp attempt =
     (case sleep_s E resp attempt of Inl e \<Rightarrow> False | Inr d \<Rightarrow> 0 \<le> d \<and> d < 9223372037)"

section \<open>Concrete environments\<close>

definition token_ok :: response where
  "token_ok = \<lparr>status_code = 200, body_text = ''{}'',
     body_json = Some (JObj [(''access_token'', JStr ''t0'')]), header = (\<lambda>h. None)\<rparr>"

definition answers :: "response list \<Rightarrow> nat \<Rightarrow> error + response" where
  "answers rs n = (if n < length rs then Inr (rs ! n) else Inl (RequestException ''connection refused''))"

definition demo_env :: "(nat \<Rightarrow> error + response) \<Rightarrow> (nat \<Rightarrow> error option) \<Rightarrow> env" where
  "demo_env api spark =
     \<lparr>base_url = ''https://api.hubapi.com'', bronze_base_path = ''dbfs:/bronze'',
      catalog = [], schema = ''hubspot_bronze'',
      client_id_key = ''client_id'', client_secret_key = ''client_secret'',
      refresh_token_key = ''refresh_token'', secret = (\<lambda>k. k),
      token_endpoint = (\<lambda>n. Inr token_ok), api_endpoint = api, spark_outcome = spark,
      clock = (\<lambda>n. int n), py_repr = (\<lambda>x. ''?''), array_gt = (\<lambda>xs ys. Inl TypeError),
      upper_outside = (\<lambda>c. [c]), spark_string = (\<lambda>x. ''?''), spark_rows = (\<lambda>x. [x]),
      int_max_str_digits = 4300\<rparr>"

definition world0 :: world where
  "world0 = \<lparr>token_calls = 0, api_calls = 0, spark_calls = 0, clock_reads = 0, trace = [],
     watermarks = [], bronze = (\<lambda>p. []), campaigns = []\<rparr>"

definition busy :: "string option \<Rightarrow> response" where
  "busy ra = \<lparr>status_code = 429, body_text = ''slow down'', body_json = None,
     header = (\<lambda>h. if h = ''Retry-After'' then ra else None)\<rparr>"

definition page :: "json \<Rightarrow> response" where
  "page j = \<lparr>status_code = 200, body_text = ''{}'', body_json = Some j, header = (\<lambda>h. None)\<rparr>"

definition retry_once_env :: env where
  "retry_once_env = demo_env (answers [busy None, page (JObj [])]) (\<lambda>n. None)"


definition page_of :: "json list \<Rightarrow> json \<Rightarrow> json" where
  "page_of results after =
     JObj [(''results'', JArr results), (''paging'', JObj [(''next'', JObj [(''after'', after)])])]"

definition last_page_of :: "json list \<Rightarrow> json" where
  "last_page_of results = JObj [(''results'', JArr results)]"

definition rec_id :: "string \<Rightarrow> json" where
  "rec_id i = JObj [(''id'', JStr i)]"

definition three_pages :: "json list" where
  "three_pages = [page_of [rec_id ''1'', rec_id ''2''] (JStr ''a''), page_of [rec_id ''3''] (JStr ''b''),
                  last_page_of [rec_id ''4'']]"

definition three_pages_env :: env where
  "three_pages_env = demo_env (answers (map page three_pages)) (\<lambda>n. None)"

definition wm_table :: "watermark_row list" where
  "wm_table =
     [\<lparr>entity = ''crm_feedback_submissions'', watermark_type = ''hs_lastmodifieddate'',
       watermark_value = Some ''2024-01-01T00:00:00.000Z'', updated_at = Some 10\<rparr>,
      \<lparr>entity = ''crm_contacts'', watermark_type = ''hs_lastmodifieddate'',
       watermark_value = Some ''2024-02-02T00:00:00.000Z'', updated_at = Some 30\<rparr>,
      \<lparr>entity = ''crm_feedback_submissions'', watermark_type = ''hs_lastmodifieddate'',
       watermark_value = Some ''2024-03-03T00:00:00.000Z'', updated_at = Some 20\<rparr>,
      \<lparr>entity = ''crm_feedback_submissions'', watermark_type = ''hs_lastmodifieddate'',
       watermark_value = Some ''2023-01-01T00:00:00.000Z'', updated_at = None\<rparr>]"

definition world_wm :: world where
  "world_wm = world0\<lparr>watermarks := wm_table\<rparr>"

definition quiet_env :: env where
  "quiet_env = demo_env (answers []) (\<lambda>n. None)"

definition not_found :: response where
  "not_found = \<lparr>status_code = 404, body_text = ''not found'', body_json = None, header = (\<lambda>h. None)\<rparr>"

definition revenue_of :: "int \<Rightarrow> json" where
  "revenue_of n = JObj [(''revenueAmount'', JInt n)]"

definition three_campaigns :: "json list" where
  "three_campaigns = [rec_id ''c1'', rec_id ''c2'', rec_id ''c3'']"

definition revenue_env :: env where
  "revenue_env = demo_env (answers [page (revenue_of 10), not_found, page (revenue_of 30)]) (\<lambda>n. None)"

definition abort_env :: env where
  "abort_env = demo_env (\<lambda>n. if n = 1 then Inr not_found else Inr (page (last_page_of [rec_id ''r'']))) (\<lambda>n. None)"

definition modified :: "string \<Rightarrow> string \<Rightarrow> json" where
  "modified i ts = JObj [(''id'', JStr i), (''properties'', JObj [(''hs_lastmodifieddate'', JStr ts)])]"

definition changed_rows :: "json list" where
  "changed_rows = [modified ''1'' ''2024-03-04T00:00:00.000Z'', modified ''2'' ''2024-03-06T00:00:00.000Z'',
                   modified ''3'' ''2024-03-05T00:00:00.000Z'']"

definition changes_env :: env where
  "changes_env = demo_env (answers [page (last_page_of changed_rows)]) (\<lambda>n. None)"

definition sink_down_env :: env where
  "sink_down_env = demo_env (answers [page (last_page_of changed_rows)]) (\<lambda>n. Some (SparkException ''write failed''))"

definition superscript_env :: env where
  "superscript_env = demo_env (answers [busy (Some [CHR 0xB2]), page (JObj [(''results'', JArr [])])]) (\<lambda>n. None)"


definition unstamped_env :: env where
  "unstamped_env = demo_env (answers [page (last_page_of [rec_id ''1'', rec_id ''2''])]) (\<lambda>n. None)"

section \<open>Properties of the request wrapper\<close>

declare hs_request_loop.simps [simp del]
declare decimal_nat.simps [simp del]

lemmas demo_defs = demo_env_def world0_def token_ok_def answers_def busy_def page_def

lemmas request_defs = hs_request_def get_access_token_def requests_post_token_def emit_def
  requests_request_def Let_def transient_status_def decoded_body_def time_sleep_def sleep_s_def
  isdigit_def isdigit_char_def digit_char_def py_int_def int_of_digits_def upper_def upper_char_def
  py_str_def

lemma requests_request_fields:
  "requests_request E rq w = (a, w1) \<Longrightarrow>
     api_endpoint E (api_calls w) = a \<and> api_calls w1 = Suc (api_calls w) \<and> token_calls w1 = token_calls w
     \<and> trace w1 = trace w @ [ApiCall rq] \<and> watermarks w1 = watermarks w \<and> bronze w1 = bronze w
     \<and> campaigns w1 = campaigns w \<and> spark_calls w1 = spark_calls w \<and> clock_reads w1 = clock_reads w"
  by (auto simp: requests_request_def emit_def)

lemma time_sleep_slept:
  "time_sleep d w = (None, w2) \<Longrightarrow>
     0 \<le> d \<and> d < 9223372037 \<and> api_calls w2 = api_calls w \<and> token_calls w2 = token_calls w
     \<and> trace w2 = trace w @ [Sleep d] \<and> watermarks w2 = watermarks w \<and> bronze w2 = bronze w
     \<and> campaigns w2 = campaigns w \<and> spark_calls w2 = spark_calls w \<and> clock_reads w2 = clock_reads w"
  by (auto simp: time_sleep_def emit_def split: if_splits)

lemma time_sleep_refused:
  "time_sleep d w = (Some e, w2) \<Longrightarrow> w2 = w \<and> (e = ValueError \<or> e = OverflowError) \<and> \<not> (0 \<le> d \<and> d < 9223372037)"
  by (auto simp: time_sleep_def split: if_splits)

lemma time_sleep_ok: "0 \<le> d \<Longrightarrow> d < 9223372037 \<Longrightarrow> time_sleep d w = (None, emit (Sleep d) w)"
  by (simp add: time_sleep_def)

lemma sleep_s_error: "sleep_s E r a = Inl e \<Longrightarrow> e = ValueError"
  by (auto simp: sleep_s_def py_int_def split: option.splits if_splits)

text \<open>One turn of the loop, by what the answer is.\<close>

lemma hs_request_loop_stops:
  assumes "requests_request E rq w = (ans, w1)"
    and "\<not> (\<exists>r. ans = Inr r \<and> \<not> status_code r < 300 \<and> transient_status (status_code r)
              \<and> a + 1 \<le> mr \<and> delay_ok E r (a + 1))"
  shows "\<exists>res. hs_request_loop E rq path mr a w = (res, w1)
     \<and> (case ans of Inl e \<Rightarrow> res = Inl e
         | Inr r \<Rightarrow> if status_code r < 300 then res = decoded_body r
            else if transient_status (status_code r) \<and> a + 1 \<le> mr
                 then res = Inl ValueError \<or> res = Inl OverflowError
                 else res = Inl (HubSpotApiError (status_code r) path (body_text r)))"
proof (cases ans)
  case (Inl e)
  then show ?thesis using assms(1) by (simp add: hs_request_loop.simps[of E rq path mr a w] Let_def)
next
  case (Inr r)
  show ?thesis
  proof (cases "\<not> status_code r < 300 \<and> transient_status (status_code r) \<and> a + 1 \<le> mr")
    case False
    then show ?thesis using assms(1) Inr
      by (auto simp add: hs_request_loop.simps[of E rq path mr a w] Let_def)
  next
    case True
    then have nd: "\<not> delay_ok E r (a + 1)" using assms(2) Inr by simp
    show ?thesis
    proof (cases "sleep_s E r (a + 1)")
      case (Inl e)
      then show ?thesis using assms(1) Inr True sleep_s_error[OF Inl]
        by (simp add: hs_request_loop.simps[of E rq path mr a w] Let_def)
    next
      case d: (Inr d)
      then have "\<not> (0 \<le> d \<and> d < 9223372037)" using nd by (simp add: delay_ok_def)
      then obtain e where "time_sleep d w1 = (Some e, w1)" "e = ValueError \<or> e = OverflowError"
        by (auto simp: time_sleep_def)
      then show ?thesis using assms(1) Inr True d
        by (auto simp add: hs_request_loop.simps[of E rq path mr a w] Let_def)
    qed
  qed
qed

lemma hs_request_loop_retry:
  assumes "requests_request E rq w = (Inr r, w1)"
    and "\<not> status_code r < 300" "transient_status (status_code r)" "a + 1 \<le> mr" "delay_ok E r (a + 1)"
  shows "\<exists>d. sleep_s E r (a + 1) = Inr d \<and> 0 \<le> d \<and> d < 9223372037
     \<and> hs_request_loop E rq path mr a w = hs_request_loop E rq path mr (a + 1) (emit (Sleep d) w1)"
proof -
  from assms(5) obtain d where d: "sleep_s E r (a + 1) = Inr d" "0 \<le> d" "d < 9223372037"
    by (auto simp: delay_ok_def split: sum.splits)
  then show ?thesis using assms(1-4) time_sleep_ok[OF d(2,3), of w1]
    by (simp add: hs_request_loop.simps[of E rq path mr a w] Let_def)
qed

lemma emit_fields [simp]:
  "api_calls (emit ev w) = api_calls w" "token_calls (emit ev w) = token_calls w"
  "trace (emit ev w) = trace w @ [ev]" "watermarks (emit ev w) = watermarks w"
  "bronze (emit ev w) = bronze w" "campaigns (emit ev w) = campaigns w"
  "spark_calls (emit ev w) = spark_calls w" "clock_reads (emit ev w) = clock_reads w"
  by (simp_all add: emit_def)



lemma api_requests_append [simp]: "api_requests (xs @ ys) = api_requests xs @ api_requests ys"
  by (induction xs rule: api_requests.induct) simp_all

lemma hs_request_loop_frame:
  "hs_request_loop E rq path mr a w = (res, w') \<Longrightarrow>
     token_calls w' = token_calls w \<and> same_stores w w' \<and> api_calls w \<le> api_calls w'
     \<and> (\<exists>evs. trace w' = trace w @ evs \<and> list_all http_event evs
            \<and> api_requests evs = replicate (api_calls w' - api_calls w) rq)"
proof (induction "nat (mr - a)" arbitrary: a w rule: less_induct)
  case less
  obtain ans w1 where rr: "requests_request E rq w = (ans, w1)" by (cases "requests_request E rq w")
  note f = requests_request_fields[OF rr]
  show ?case
  proof (cases "\<exists>r. ans = Inr r \<and> \<not> status_code r < 300 \<and> transient_status (status_code r)
              \<and> a + 1 \<le> mr \<and> delay_ok E r (a + 1)")
    case False
    from hs_request_loop_stops[OF rr False, of path] less.prems have "w' = w1" by auto
    then show ?thesis using f
      by (intro conjI exI[of _ "[ApiCall rq]"]) (simp_all add: same_stores_def)
  next
    case True
    then obtain r where r: "ans = Inr r" "\<not> status_code r < 300" "transient_status (status_code r)"
      "a + 1 \<le> mr" "delay_ok E r (a + 1)" by blast
    from hs_request_loop_retry[OF rr[unfolded r(1)] r(2-5), of path]
    obtain d where dc: "sleep_s E r (a + 1) = Inr d \<and> 0 \<le> d \<and> d < 9223372037
       \<and> hs_request_loop E rq path mr a w = hs_request_loop E rq path mr (a + 1) (emit (Sleep d) w1)"
      by (rule exE)
    let ?w2 = "emit (Sleep d) w1"
    have run: "hs_request_loop E rq path mr (a + 1) ?w2 = (res, w')" using dc less.prems by simp
    have "nat (mr - (a + 1)) < nat (mr - a)" using r(4) by simp
    from less.hyps[OF this run]
    obtain evs where ih: "token_calls w' = token_calls ?w2" "same_stores ?w2 w'" "api_calls ?w2 \<le> api_calls w'"
      "trace w' = trace ?w2 @ evs" "list_all http_event evs"
      "api_requests evs = replicate (api_calls w' - api_calls ?w2) rq"
      by (elim exE conjE) (rule that; assumption)
    have c2: "api_calls ?w2 = Suc (api_calls w)" using f by simp
    have rp: "replicate (api_calls w' - api_calls w) rq = rq # replicate (api_calls w' - api_calls ?w2) rq"
      using ih(3) c2 by (cases "api_calls w' - api_calls w") (simp_all add: Suc_diff_le)
    show ?thesis
      using ih f c2 unfolding rp
      by (intro conjI exI[of _ "[ApiCall rq, Sleep d] @ evs"]) (simp_all add: same_stores_def)
  qed
qed

lemma get_access_token_fields:
  "get_access_token E w = (r, w1) \<Longrightarrow>
     token_calls w1 = Suc (token_calls w) \<and> api_calls w1 = api_calls w \<and> same_stores w w1
     \<and> (\<exists>u p. trace w1 = trace w @ [TokenPost u p])"
  by (auto simp: get_access_token_def requests_post_token_def emit_def same_stores_def Let_def
           split: sum.splits if_splits option.splits)


lemma transient_not_ok: "transient_status s \<Longrightarrow> \<not> s < 300"
  by (auto simp: transient_status_def)

lemma sleeps_append [simp]: "sleeps (xs @ ys) = sleeps xs @ sleeps ys"
  by (induction xs rule: sleeps.induct) simp_all

text \<open>
  C1 (as amended). Every call of \<open>hs_request\<close> asks the token endpoint exactly once,
  before its first HTTP attempt: the trace of the call starts with the token request and
  holds no other one, however many attempts follow. Every attempt of the call is sent
  with the same request, whose \<^verbatim>\<open>Authorization\<close> header carries the token that this one
  request returned: the retries reuse it. When the token request fails no attempt is made.
\<close>

theorem hs_request_one_token:
  "token_calls (snd (hs_request E meth path ps body max_retries timeout_s w)) = token_calls w + 1
   \<and> (\<exists>u payload rest. trace (snd (hs_request E meth path ps body max_retries timeout_s w))
          = trace w @ TokenPost u payload # rest \<and> list_all (\<lambda>ev. \<not> is_token_post ev) rest)
   \<and> api_requests (trace (snd (hs_request E meth path ps body max_retries timeout_s w)))
        = api_requests (trace w) @
          (case fst (get_access_token E w) of
             Inl e \<Rightarrow> []
           | Inr token \<Rightarrow>
               replicate (api_calls (snd (hs_request E meth path ps body max_retries timeout_s w)) - api_calls w)
                 \<lparr>http_method = upper (upper_outside E) meth, url = base_url E @ path,
                  req_headers = [(''Authorization'', ''Bearer '' @ py_str E token)],
                  params = ps, json_body = body, timeout = timeout_s\<rparr>)"
proof -
  obtain r w1 where g: "get_access_token E w = (r, w1)" by (cases "get_access_token E w")
  note gf = get_access_token_fields[OF g]
  then obtain u p where tr1: "trace w1 = trace w @ [TokenPost u p]" by blast
  show ?thesis
  proof (cases r)
    case (Inl e)
    then have "hs_request E meth path ps body max_retries timeout_s w = (Inl e, w1)"
      by (simp add: hs_request_def g)
    then show ?thesis using gf tr1 g Inl by simp
  next
    case (Inr token)
    let ?rq = "\<lparr>http_method = upper (upper_outside E) meth, url = base_url E @ path,
             req_headers = [(''Authorization'', ''Bearer '' @ py_str E token)],
             params = ps, json_body = body, timeout = timeout_s\<rparr>"
    obtain res w' where l: "hs_request_loop E ?rq path max_retries 0 w1 = (res, w')"
      by (cases "hs_request_loop E ?rq path max_retries 0 w1")
    have h: "hs_request E meth path ps body max_retries timeout_s w = (res, w')"
      using l by (simp add: hs_request_def g Inr)
    from hs_request_loop_frame[OF l] obtain evs where
      fr: "token_calls w' = token_calls w1" "trace w' = trace w1 @ evs" "list_all http_event evs"
        "api_requests evs = replicate (api_calls w' - api_calls w1) ?rq"
      by (elim exE conjE) (rule that; assumption)
    have nt: "list_all (\<lambda>ev. \<not> is_token_post ev) evs"
      using fr(3) by (induction evs) (auto elim: http_event.elims)
    have c: "api_calls w1 = api_calls w" using gf by simp
    have t1: "token_calls (snd (hs_request E meth path ps body max_retries timeout_s w)) = token_calls w + 1"
      using h fr(1) gf by simp
    have t2: "\<exists>u payload rest. trace (snd (hs_request E meth path ps body max_retries timeout_s w))
          = trace w @ TokenPost u payload # rest \<and> list_all (\<lambda>ev. \<not> is_token_post ev) rest"
      using h fr(2) tr1 nt by simp
    have t3: "api_requests (trace (snd (hs_request E meth path ps body max_retries timeout_s w)))
        = api_requests (trace w) @ replicate (api_calls (snd (hs_request E meth path ps body max_retries timeout_s w)) - api_calls w) ?rq"
      using fr(2,4) tr1 c unfolding h by simp
    show ?thesis using t1 t2 t3 unfolding g Inr by simp
  qed
qed

text \<open>
  C1 (as stated) fails: a 429 followed by a 200 makes two HTTP attempts and one token
  request, not one token request per attempt.
\<close>

theorem hs_request_token_per_attempt_counterexample:
  "api_calls (snd (hs_request retry_once_env ''GET'' ''/crm/v3/owners/'' None None 6 120 world0)) = 2
   \<and> token_calls (snd (hs_request retry_once_env ''GET'' ''/crm/v3/owners/'' None None 6 120 world0)) = 1"
  by (simp add: retry_once_env_def demo_defs request_defs hs_request_loop.simps)





lemma delay_ok_sleep_s:
  "delay_ok E r a \<Longrightarrow>
     sleep_s E r a = Inr (case header r ''Retry-After'' of
                            None \<Rightarrow> min 60 (2 ^ nat a)
                          | Some s \<Rightarrow> if isdigit s then int_of_digits s else min 60 (2 ^ nat a))"
  by (auto simp: delay_ok_def sleep_s_def py_int_def isdigit_def split: option.splits sum.splits if_splits)

lemma hs_request_loop_retries:
  assumes "\<forall>i<n. api_endpoint E (api_calls w + i) = Inr (rs i) \<and> transient_status (status_code (rs i))
              \<and> delay_ok E (rs i) (a + 1 + int i)"
      and "api_endpoint E (api_calls w + n) = Inr ok" "status_code ok < 300"
      and "a + int n \<le> mr"
  shows "\<exists>w'. hs_request_loop E rq path mr a w = (decoded_body ok, w')
           \<and> api_calls w' = api_calls w + n + 1
           \<and> sleeps (trace w') = sleeps (trace w) @
                map (\<lambda>i. case header (rs i) ''Retry-After'' of
                            None \<Rightarrow> min 60 (2 ^ nat (a + 1 + int i))
                          | Some s \<Rightarrow> if isdigit s then int_of_digits s else min 60 (2 ^ nat (a + 1 + int i)))
                    [0..<n]"
  using assms
proof (induction n arbitrary: a w rs)
  case 0
  obtain ans w1 where rr: "requests_request E rq w = (ans, w1)" by (cases "requests_request E rq w")
  note f = requests_request_fields[OF rr]
  have "hs_request_loop E rq path mr a w = (decoded_body ok, w1)"
    using "0.prems" f by (simp add: hs_request_loop.simps[of E rq path mr a w] rr Let_def)
  then show ?case using f by simp
next
  case (Suc n)
  let ?delay = "\<lambda>r k. case header r ''Retry-After'' of
                            None \<Rightarrow> min 60 (2 ^ nat k)
                          | Some s \<Rightarrow> if isdigit s then int_of_digits s else min (60::int) (2 ^ nat k)"
  obtain ans w1 where rr: "requests_request E rq w = (ans, w1)" by (cases "requests_request E rq w")
  note f = requests_request_fields[OF rr]
  have r0: "api_endpoint E (api_calls w) = Inr (rs 0)" "transient_status (status_code (rs 0))"
      "delay_ok E (rs 0) (a + 1)"
    using Suc.prems(1)[rule_format, of 0] by simp_all
  have rr0: "requests_request E rq w = (Inr (rs 0), w1)" using rr f r0(1) by simp
  have le: "a + 1 \<le> mr" using Suc.prems(4) by simp
  from hs_request_loop_retry[OF rr0 transient_not_ok[OF r0(2)] r0(2) le r0(3), of path]
  obtain d where dc: "sleep_s E (rs 0) (a + 1) = Inr d \<and> 0 \<le> d \<and> d < 9223372037
       \<and> hs_request_loop E rq path mr a w = hs_request_loop E rq path mr (a + 1) (emit (Sleep d) w1)"
    by (rule exE)
  have d: "d = ?delay (rs 0) (a + 1)" using dc delay_ok_sleep_s[OF r0(3)] by simp
  let ?w2 = "emit (Sleep d) w1"
  have step: "hs_request_loop E rq path mr a w = hs_request_loop E rq path mr (a + 1) ?w2" using dc by simp
  have c2: "api_calls ?w2 = Suc (api_calls w)" using f by simp
  have p1: "\<forall>i<n. api_endpoint E (api_calls ?w2 + i) = Inr (rs (Suc i)) \<and> transient_status (status_code (rs (Suc i)))
              \<and> delay_ok E (rs (Suc i)) (a + 1 + 1 + int i)"
  proof (intro allI impI)
    fix i assume "i < n"
    then show "api_endpoint E (api_calls ?w2 + i) = Inr (rs (Suc i)) \<and> transient_status (status_code (rs (Suc i)))
              \<and> delay_ok E (rs (Suc i)) (a + 1 + 1 + int i)"
      using Suc.prems(1)[rule_format, of "Suc i"] c2 by (simp add: add.commute add.left_commute)
  qed
  have p2: "api_endpoint E (api_calls ?w2 + n) = Inr ok" using Suc.prems(2) c2 by simp
  have p4: "(a + 1) + int n \<le> mr" using Suc.prems(4) by simp
  from Suc.IH[of ?w2 "\<lambda>i. rs (Suc i)" "a + 1", OF p1 p2 Suc.prems(3) p4]
  obtain w' where ih: "hs_request_loop E rq path mr (a + 1) ?w2 = (decoded_body ok, w')"
     "api_calls w' = api_calls ?w2 + n + 1"
     "sleeps (trace w') = sleeps (trace ?w2) @ map (\<lambda>i. ?delay (rs (Suc i)) (a + 1 + 1 + int i)) [0..<n]"
    by (elim exE conjE) (rule that; assumption)
  have k: "\<And>x. a + 1 + int (Suc x) = a + 1 + 1 + int x" "a + 1 + int 0 = a + 1" by simp_all
  have m0: "\<And>F :: nat \<Rightarrow> int. map F [0..<Suc n] = F 0 # map (\<lambda>i. F (Suc i)) [0..<n]"
    by (simp add: upt_rec[of 0 "Suc n"] map_Suc_upt[symmetric] comp_def del: upt_Suc)
  have m: "map (\<lambda>i. ?delay (rs i) (a + 1 + int i)) [0..<Suc n]
         = ?delay (rs 0) (a + 1) # map (\<lambda>i. ?delay (rs (Suc i)) (a + 1 + 1 + int i)) [0..<n]"
    using m0[of "\<lambda>i. ?delay (rs i) (a + 1 + int i)"] unfolding k .
  show ?case
    apply (intro exI[of _ w'])
    using step ih c2 f d unfolding m by simp
qed

text \<open>
  Where every retry goes ahead (no \<^verbatim>\<open>Retry-After\<close> that \<^verbatim>\<open>isdigit()\<close> accepts and
  \<^verbatim>\<open>int\<close> or \<^verbatim>\<open>time.sleep\<close> refuses), \<open>n \<le> max_retries\<close> transient answers followed
  by a status below 300 give the decoded body after \<open>n + 1\<close> calls, with the delays of
  the specification.
\<close>

lemma hs_request_retries_then_succeeds:
  assumes tok: "fst (get_access_token E w) = Inr token"
    and fails: "\<forall>i<n. api_endpoint E (api_calls w + i) = Inr (rs i) \<and> transient_status (status_code (rs i))
                  \<and> delay_ok E (rs i) (int i + 1)"
    and ok: "api_endpoint E (api_calls w + n) = Inr ok" "status_code ok < 300"
    and dec: "decoded_body ok = Inr j"
    and budget: "int n \<le> max_retries"
  shows "\<exists>w'. hs_request E meth path ps body max_retries timeout_s w = (Inr j, w')
     \<and> api_calls w' = api_calls w + n + 1
     \<and> sleeps (trace w') = sleeps (trace w) @
          map (\<lambda>i. case header (rs i) ''Retry-After'' of
                      None \<Rightarrow> min 60 (2 ^ (i + 1))
                    | Some s \<Rightarrow> if isdigit s then int_of_digits s else min 60 (2 ^ (i + 1)))
              [0..<n]"
proof -
  obtain r w1 where g: "get_access_token E w = (r, w1)" by (cases "get_access_token E w")
  with tok have r: "r = Inr token" by simp
  note gf = get_access_token_fields[OF g]
  then obtain u p where tr1: "trace w1 = trace w @ [TokenPost u p]" by blast
  have c: "api_calls w1 = api_calls w" using gf by simp
  let ?rq = "\<lparr>http_method = upper (upper_outside E) meth, url = base_url E @ path,
             req_headers = [(''Authorization'', ''Bearer '' @ py_str E token)],
             params = ps, json_body = body, timeout = timeout_s\<rparr>"
  have f': "\<forall>i<n. api_endpoint E (api_calls w1 + i) = Inr (rs i) \<and> transient_status (status_code (rs i))
                  \<and> delay_ok E (rs i) (0 + 1 + int i)"
    using fails c by (simp add: add.commute)
  have ok': "api_endpoint E (api_calls w1 + n) = Inr ok" using ok(1) c by simp
  have b': "0 + int n \<le> max_retries" using budget by simp
  from hs_request_loop_retries[OF f' ok' ok(2) b', of ?rq path]
  obtain w' where l: "hs_request_loop E ?rq path max_retries 0 w1 = (decoded_body ok, w')"
      "api_calls w' = api_calls w1 + n + 1"
      "sleeps (trace w') = sleeps (trace w1) @
          map (\<lambda>i. case header (rs i) ''Retry-After'' of
                      None \<Rightarrow> min 60 (2 ^ nat (0 + 1 + int i))
                    | Some s \<Rightarrow> if isdigit s then int_of_digits s else min 60 (2 ^ nat (0 + 1 + int i)))
              [0..<n]"
    by (elim exE conjE) (rule that; assumption)
  have h: "hs_request E meth path ps body max_retries timeout_s w = (Inr j, w')"
    using l(1) dec by (simp add: hs_request_def g r)
  have e: "\<And>i. nat (0 + 1 + int i) = i + 1" by simp
  show ?thesis
    apply (intro exI[of _ w'])
    using h l(2,3) c tr1 unfolding e by simp
qed

text \<open>
  C5 (a defect of the code). The claim holds of the runs above, where every retry goes
  ahead. It fails where the guard \<^verbatim>\<open>retry_after.isdigit()\<close> lets through a header
  that \<^verbatim>\<open>int\<close> refuses: on a 429 whose \<^verbatim>\<open>Retry-After\<close> is the superscript two,
  followed by a good answer, \<open>hs_request\<close> raises \<^verbatim>\<open>ValueError\<close> after one call and
  without sleeping, where the claim has it back off for \<open>min 60 (2 ^ 1)\<close> seconds and
  return the body after two calls.
\<close>

theorem hs_request_superscript_retry_after:
  "fst (hs_request superscript_env ''GET'' ''/crm/v3/owners/'' None None 6 120 world0) = Inl ValueError
   \<and> api_calls (snd (hs_request superscript_env ''GET'' ''/crm/v3/owners/'' None None 6 120 world0)) = 1
   \<and> sleeps (trace (snd (hs_request superscript_env ''GET'' ''/crm/v3/owners/'' None None 6 120 world0))) = []
   \<and> api_endpoint superscript_env 0 = Inr (busy (Some [CHR 0xB2]))
   \<and> api_endpoint superscript_env 1 = Inr (page (JObj [(''results'', JArr [])]))"
  by (simp add: superscript_env_def demo_defs request_defs hs_request_loop.simps)

section \<open>What a request leaves untouched\<close>

lemma net_event_http: "http_event ev \<Longrightarrow> net_event ev"
  by (cases ev) simp_all

lemma hs_request_frame:
  assumes "hs_request E meth path ps body mr t w = (r, w')"
  shows "same_stores w w' \<and> (\<exists>evs. trace w' = trace w @ evs \<and> list_all net_event evs)"
proof -
  obtain a w1 where g: "get_access_token E w = (a, w1)" by (cases "get_access_token E w")
  from get_access_token_fields[OF g] obtain u p where
    f1: "same_stores w w1" "trace w1 = trace w @ [TokenPost u p]" by blast
  show ?thesis
  proof (cases a)
    case (Inl e)
    then have "w' = w1" using assms by (simp add: hs_request_def g)
    then show ?thesis using f1 by simp
  next
    case (Inr token)
    then obtain rq where "hs_request_loop E rq path mr 0 w1 = (r, w')"
      using assms by (simp add: hs_request_def g)
    from hs_request_loop_frame[OF this] obtain evs where
      "same_stores w1 w'" "trace w' = trace w1 @ evs" "list_all http_event evs"
      by (elim exE conjE) (rule that; assumption)
    moreover have "list_all net_event evs"
      using \<open>list_all http_event evs\<close> by (induction evs) (auto simp: net_event_http)
    ultimately show ?thesis using f1 by (auto simp: same_stores_def)
  qed
qed

lemma py_print_fields [simp]:
  "trace (py_print m w) = trace w @ [Print m]" "watermarks (py_print m w) = watermarks w"
  "bronze (py_print m w) = bronze w" "campaigns (py_print m w) = campaigns w"
  "api_calls (py_print m w) = api_calls w" "token_calls (py_print m w) = token_calls w"
  "spark_calls (py_print m w) = spark_calls w" "clock_reads (py_print m w) = clock_reads w"
  by (simp_all add: py_print_def emit_def)

lemmas run_defs = demo_defs request_defs hs_request_loop.simps py_print_def rec_id_def
  write_bronze_delta_def rows_of_record_def utc_now_def spark_run_def

section \<open>Properties of pagination\<close>

lemma call_params_append [simp]: "call_params (xs @ ys) = call_params xs @ call_params ys"
  by (induction xs rule: call_params.induct) simp_all

lemma hs_request_first_try:
  assumes "grants_token (token_endpoint E (token_calls w))"
    and "api_endpoint E (api_calls w) = Inr r" and "status_code r < 300"
  shows "\<exists>w'. hs_request E meth path ps body mr t w = (decoded_body r, w')
     \<and> token_calls w' = Suc (token_calls w) \<and> api_calls w' = Suc (api_calls w) \<and> same_stores w w'
     \<and> call_params (trace w') = call_params (trace w) @ [ps]"
  using assms
  by (auto simp: grants_token_def hs_request_def get_access_token_def requests_post_token_def emit_def
       hs_request_loop.simps requests_request_def Let_def same_stores_def
       split: sum.splits option.splits)


lemma cursor_params_shift:
  "cursor_params p c (Suc i) = cursor_params (AList.update ''after'' (c 0) p) (\<lambda>j. c (Suc j)) i"
  by (induction i) simp_all

lemma map_of_cursor_params_other:
  "k \<noteq> ''after'' \<Longrightarrow> map_of (cursor_params p c i) k = map_of p k"
  by (induction i) (simp_all add: update_conv')

lemma map_of_cursor_params:
  "map_of (cursor_params p c (Suc i)) = (map_of p)(''after'' \<mapsto> c i)"
  by (rule ext) (simp add: update_conv' map_of_cursor_params_other)

lemma paginate_loop_pages:
  assumes "\<forall>i\<le>m. grants_token (token_endpoint E (token_calls w + i))"
    and "\<forall>i\<le>m. api_endpoint E (api_calls w + i) = Inr (pages i) \<and> status_code (pages i) < 300
            \<and> decoded_body (pages i) = Inr (data i)
            \<and> py_get_list (data i) page_key = Inr (JArr (items i))
            \<and> paging_next_after (data i) = Inr (cursor i)"
    and "\<forall>i<m. truthy (cursor i)" and "\<not> truthy (cursor m)"
  shows "\<exists>w'. paginate_loop E path page_key p out w = Some (Inr (out @ concat (map items [0..<Suc m])), w')
     \<and> api_calls w' = api_calls w + Suc m \<and> token_calls w' = token_calls w + Suc m \<and> same_stores w w'
     \<and> call_params (trace w') = call_params (trace w) @ map (\<lambda>i. Some (cursor_params p cursor i)) [0..<Suc m]"
  using assms
proof (induction m arbitrary: w p out pages data items cursor)
  case 0
  from hs_request_first_try[of E w "pages 0" "''GET''" path "Some p" None 6 120] "0.prems"
  obtain w1 where h: "hs_request E ''GET'' path (Some p) None 6 120 w = (Inr (data 0), w1)"
    "token_calls w1 = Suc (token_calls w)" "api_calls w1 = Suc (api_calls w)" "same_stores w w1"
    "call_params (trace w1) = call_params (trace w) @ [Some p]"
    by auto
  have "paginate_loop E path page_key p out w = Some (Inr (out @ items 0), w1)"
    using "0.prems" h(1) by (subst paginate_loop.simps) simp
  then show ?case using h by simp
next
  case (Suc m)
  have g0: "grants_token (token_endpoint E (token_calls w))"
    using Suc.prems(1)[rule_format, of 0] by simp
  have p0: "api_endpoint E (api_calls w) = Inr (pages 0)" "status_code (pages 0) < 300"
      "decoded_body (pages 0) = Inr (data 0)" "py_get_list (data 0) page_key = Inr (JArr (items 0))"
      "paging_next_after (data 0) = Inr (cursor 0)" "truthy (cursor 0)"
    using Suc.prems(2)[rule_format, of 0] Suc.prems(3)[rule_format, of 0] by simp_all
  from hs_request_first_try[OF g0 p0(1) p0(2), of "''GET''" path "Some p" None 6 120] p0(3)
  obtain w1 where h: "hs_request E ''GET'' path (Some p) None 6 120 w = (Inr (data 0), w1)"
    "token_calls w1 = Suc (token_calls w)" "api_calls w1 = Suc (api_calls w)" "same_stores w w1"
    "call_params (trace w1) = call_params (trace w) @ [Some p]"
    by auto
  let ?p' = "AList.update ''after'' (cursor 0) p"
  have step: "paginate_loop E path page_key p out w = paginate_loop E path page_key ?p' (out @ items 0) w1"
    using p0 h(1) by (subst paginate_loop.simps) simp
  have a1: "\<forall>i\<le>m. grants_token (token_endpoint E (token_calls w1 + i))"
  proof (intro allI impI)
    fix i assume "i \<le> m"
    then show "grants_token (token_endpoint E (token_calls w1 + i))"
      using Suc.prems(1)[rule_format, of "Suc i"] h(2) by simp
  qed
  have a2: "\<forall>i\<le>m. api_endpoint E (api_calls w1 + i) = Inr (pages (Suc i)) \<and> status_code (pages (Suc i)) < 300
            \<and> decoded_body (pages (Suc i)) = Inr (data (Suc i))
            \<and> py_get_list (data (Suc i)) page_key = Inr (JArr (items (Suc i)))
            \<and> paging_next_after (data (Suc i)) = Inr (cursor (Suc i))"
  proof (intro allI impI)
    fix i assume "i \<le> m"
    then show "api_endpoint E (api_calls w1 + i) = Inr (pages (Suc i)) \<and> status_code (pages (Suc i)) < 300
            \<and> decoded_body (pages (Suc i)) = Inr (data (Suc i))
            \<and> py_get_list (data (Suc i)) page_key = Inr (JArr (items (Suc i)))
            \<and> paging_next_after (data (Suc i)) = Inr (cursor (Suc i))"
      using Suc.prems(2)[rule_format, of "Suc i"] h(3) by simp
  qed
  have a3: "\<forall>i<m. truthy (cursor (Suc i))" using Suc.prems(3) by auto
  from Suc.IH[of w1 "\<lambda>i. pages (Suc i)" "\<lambda>i. data (Suc i)" "\<lambda>i. items (Suc i)" "\<lambda>i. cursor (Suc i)" ?p' "out @ items 0",
       OF a1 a2 a3 Suc.prems(4)]
  obtain w' where ih: "paginate_loop E path page_key ?p' (out @ items 0) w1
       = Some (Inr ((out @ items 0) @ concat (map (\<lambda>i. items (Suc i)) [0..<Suc m])), w')"
     "api_calls w' = api_calls w1 + Suc m" "token_calls w' = token_calls w1 + Suc m" "same_stores w1 w'"
     "call_params (trace w') = call_params (trace w1) @ map (\<lambda>i. Some (cursor_params ?p' (\<lambda>i. cursor (Suc i)) i)) [0..<Suc m]"
    by blast
  have e1: "concat (map items [0..<Suc (Suc m)]) = items 0 @ concat (map (\<lambda>i. items (Suc i)) [0..<Suc m])"
    by (simp add: upt_rec[of 0 "Suc (Suc m)"] map_Suc_upt[symmetric] comp_def del: upt_Suc)
  have e2: "map (\<lambda>i. Some (cursor_params p cursor i)) [0..<Suc (Suc m)]
      = Some p # map (\<lambda>i. Some (cursor_params ?p' (\<lambda>i. cursor (Suc i)) i)) [0..<Suc m]"
    by (simp add: upt_rec[of 0 "Suc (Suc m)"] map_Suc_upt[symmetric] comp_def cursor_params_shift[symmetric] del: upt_Suc cursor_params.simps(2))
  show ?case
    apply (intro exI[of _ w'])
    unfolding step e1 e2 using ih h by (simp add: same_stores_def)
qed


text \<open>
  C6. Take \<open>k > 0\<close> answers with a status below 300, each decoding to a page whose
  results field is a list \<open>items i\<close> and whose \<^verbatim>\<open>paging.next.after\<close> reads as
  \<open>cursor i\<close>, a non-empty value on the first \<open>k - 1\<close> pages and none on page \<open>k\<close>
  (token requests succeeding). Then \<open>paginate_get\<close> returns the concatenation of the
  \<open>k\<close> result lists in order, makes exactly \<open>k\<close> HTTP calls, the first with the
  caller's params, and call \<open>i + 2\<close> with the caller's params in which the key
  \<^verbatim>\<open>after\<close> is bound to the cursor of page \<open>i + 1\<close>, whatever it was bound to before.
\<close>

theorem paginate_get_concatenates:
  assumes "0 < k"
    and "\<forall>i<k. grants_token (token_endpoint E (token_calls w + i))"
    and "\<forall>i<k. api_endpoint E (api_calls w + i) = Inr (pages i) \<and> status_code (pages i) < 300
            \<and> decoded_body (pages i) = Inr (data i)
            \<and> py_get_list (data i) page_key = Inr (JArr (items i))
            \<and> paging_next_after (data i) = Inr (cursor i)"
    and "\<forall>i. Suc i < k \<longrightarrow> truthy (cursor i)" and "\<not> truthy (cursor (k - 1))"
  shows "\<exists>w' ps. paginate_get E path params0 page_key w = Some (Inr (concat (map items [0..<k])), w')
     \<and> api_calls w' = api_calls w + k
     \<and> call_params (trace w') = call_params (trace w) @ map Some ps \<and> length ps = k
     \<and> ps ! 0 = (case params0 of None \<Rightarrow> [] | Some d \<Rightarrow> d)
     \<and> (\<forall>i. Suc i < k \<longrightarrow>
           map_of (ps ! Suc i) = (map_of (case params0 of None \<Rightarrow> [] | Some d \<Rightarrow> d))(''after'' \<mapsto> cursor i))"
proof -
  obtain m where k: "k = Suc m" using assms(1) by (cases k) auto
  let ?p = "case params0 of None \<Rightarrow> [] | Some d \<Rightarrow> d"
  have a1: "\<forall>i\<le>m. grants_token (token_endpoint E (token_calls w + i))"
    using assms(2) k by (simp add: less_Suc_eq_le)
  have a2: "\<forall>i\<le>m. api_endpoint E (api_calls w + i) = Inr (pages i) \<and> status_code (pages i) < 300
            \<and> decoded_body (pages i) = Inr (data i)
            \<and> py_get_list (data i) page_key = Inr (JArr (items i))
            \<and> paging_next_after (data i) = Inr (cursor i)"
    using assms(3) k by (simp add: less_Suc_eq_le)
  have a3: "\<forall>i<m. truthy (cursor i)" using assms(4) k by simp
  have a4: "\<not> truthy (cursor m)" using assms(5) k by simp
  from paginate_loop_pages[OF a1 a2 a3 a4, of path ?p "[]"]
  obtain w' where l: "paginate_loop E path page_key ?p [] w = Some (Inr ([] @ concat (map items [0..<Suc m])), w')"
     "api_calls w' = api_calls w + Suc m"
     "call_params (trace w') = call_params (trace w) @ map (\<lambda>i. Some (cursor_params ?p cursor i)) [0..<Suc m]"
    by blast
  let ?ps = "map (cursor_params ?p cursor) [0..<k]"
  have "paginate_get E path params0 page_key w = Some (Inr (concat (map items [0..<k])), w')"
    using l(1) k by (simp add: paginate_get_def)
  moreover have "call_params (trace w') = call_params (trace w) @ map Some ?ps"
    using l(3) k by (simp add: comp_def)
  moreover have "?ps ! 0 = ?p" using assms(1) by (simp add: nth_map_upt del: upt_Suc)
  moreover have "\<forall>i. Suc i < k \<longrightarrow> map_of (?ps ! Suc i) = (map_of ?p)(''after'' \<mapsto> cursor i)"
    by (simp add: map_of_cursor_params del: upt_Suc cursor_params.simps)
  ultimately show ?thesis using l(2) k
    by (intro exI[of _ w'] exI[of _ ?ps]) (simp del: upt_Suc cursor_params.simps)
qed

theorem paginate_get_concatenates_witness:
  "map_option fst (paginate_get three_pages_env ''/crm/v3/owners/'' (Some [(''limit'', JInt 500)]) (Some ''results'') world0)
     = Some (Inr [rec_id ''1'', rec_id ''2'', rec_id ''3'', rec_id ''4''])
   \<and> map_option (\<lambda>r. api_calls (snd r)) (paginate_get three_pages_env ''/crm/v3/owners/'' (Some [(''limit'', JInt 500)]) (Some ''results'') world0)
     = Some 3"
proof -
  let ?items = "\<lambda>i. [[rec_id ''1'', rec_id ''2''], [rec_id ''3''], [rec_id ''4'']] ! i"
  let ?cursor = "\<lambda>i. [JStr ''a'', JStr ''b'', JNull] ! i"
  have a2: "\<forall>i<3. grants_token (token_endpoint three_pages_env (token_calls world0 + i))"
    by (simp add: three_pages_env_def demo_defs grants_token_def)
  have a3: "\<forall>i<3. api_endpoint three_pages_env (api_calls world0 + i) = Inr (map page three_pages ! i)
            \<and> status_code (map page three_pages ! i) < 300
            \<and> decoded_body (map page three_pages ! i) = Inr (three_pages ! i)
            \<and> py_get_list (three_pages ! i) (Some ''results'') = Inr (JArr (?items i))
            \<and> paging_next_after (three_pages ! i) = Inr (?cursor i)"
    by (auto simp add: three_pages_env_def demo_defs three_pages_def page_of_def last_page_of_def
          decoded_body_def paging_next_after_def or_empty_dict_def less_Suc_eq numeral_3_eq_3)
  have a4: "\<forall>i. Suc i < 3 \<longrightarrow> truthy (?cursor i)"
    by (auto simp add: less_Suc_eq numeral_3_eq_3)
  have a5: "\<not> truthy (?cursor (3 - 1))" by simp
  from paginate_get_concatenates[of 3 three_pages_env world0 "\<lambda>i. map page three_pages ! i" "\<lambda>i. three_pages ! i"
      "Some ''results''" ?items ?cursor "''/crm/v3/owners/''" "Some [(''limit'', JInt 500)]", OF _ a2 a3 a4 a5]
  obtain w' where "paginate_get three_pages_env ''/crm/v3/owners/'' (Some [(''limit'', JInt 500)]) (Some ''results'') world0
      = Some (Inr (concat (map ?items [0..<3])), w')" "api_calls w' = api_calls world0 + 3"
    by auto
  moreover have "[0..<3] = [0, 1, 2::nat]" by code_simp
  ultimately show ?thesis
    by (simp add: world0_def)
qed

lemmas paginate_defs = paginate_get_def paginate_loop.simps paging_next_after_def or_empty_dict_def
  page_of_def last_page_of_def

section \<open>Properties of the watermark table\<close>

lemma desc_nulls_last_le:
  "desc_nulls_last r \<le> desc_nulls_last r' \<longleftrightarrow> latest_le (updated_at r') (updated_at r)"
  by (auto simp: desc_nulls_last_def latest_le_def less_eq_prod_def split: option.splits)

lemma get_watermark_empty:
  "filter (\<lambda>r. entity r = ent) (watermarks w) = [] \<Longrightarrow> get_watermark w ent d = Some d"
  by (simp add: get_watermark_def)

lemma sort_key_head_least:
  assumes "sort_key f xs = y # ys" and "x \<in> set xs"
  shows "f y \<le> f x"
proof -
  have "sorted (map f (y # ys))" using sorted_sort_key[of f xs] assms(1) by simp
  moreover have "x \<in> set (sort_key f xs)" using assms(2) by (simp only: set_sort)
  then have "x \<in> set (y # ys)" unfolding assms(1) .
  ultimately show ?thesis by auto
qed

lemma get_watermark_nonempty:
  assumes "filter (\<lambda>r. entity r = ent) (watermarks w) \<noteq> []"
  shows "\<exists>r\<in>set (watermarks w). entity r = ent \<and> get_watermark w ent d = watermark_value r
           \<and> (\<forall>r'\<in>set (watermarks w). entity r' = ent \<longrightarrow> latest_le (updated_at r') (updated_at r))"
proof -
  let ?rows = "filter (\<lambda>r. entity r = ent) (watermarks w)"
  have "sort_key desc_nulls_last ?rows \<noteq> []"
    using assms by (metis length_0_conv length_sort)
  then obtain y ys where s: "sort_key desc_nulls_last ?rows = y # ys"
    by (cases "sort_key desc_nulls_last ?rows") auto
  have "y \<in> set (sort_key desc_nulls_last ?rows)" unfolding s by simp
  then have "y \<in> set ?rows" by (simp only: set_sort)
  then have y: "y \<in> set (watermarks w)" "entity y = ent" by simp_all
  have g: "get_watermark w ent d = watermark_value y"
    by (simp add: get_watermark_def s)
  have "\<forall>r'\<in>set (watermarks w). entity r' = ent \<longrightarrow> latest_le (updated_at r') (updated_at y)"
  proof (intro ballI impI)
    fix r' assume "r' \<in> set (watermarks w)" "entity r' = ent"
    then have "r' \<in> set ?rows" by simp
    from sort_key_head_least[OF s this] show "latest_le (updated_at r') (updated_at y)"
      by (simp add: desc_nulls_last_le)
  qed
  with y g show ?thesis by blast
qed

text \<open>
  C8. When the table has no row for the entity, \<open>get_watermark\<close> returns the caller's
  default. Otherwise it returns the \<open>watermark_value\<close> of a row of that entity whose
  \<open>updated_at\<close> is at least as recent as that of every row of the entity, a row without
  timestamp counting as older than any other (nulls last).
\<close>

theorem get_watermark_latest:
  "(if filter (\<lambda>r. entity r = ent) (watermarks w) = [] then get_watermark w ent d = Some d
    else \<exists>r\<in>set (watermarks w). entity r = ent \<and> get_watermark w ent d = watermark_value r
           \<and> (\<forall>r'\<in>set (watermarks w). entity r' = ent \<longrightarrow> latest_le (updated_at r') (updated_at r)))"
  using get_watermark_empty[of ent w d] get_watermark_nonempty[of ent w d] by auto

theorem get_watermark_latest_witness:
  "get_watermark world_wm ''crm_feedback_submissions'' epoch_iso = Some ''2024-03-03T00:00:00.000Z''
   \<and> get_watermark world_wm ''crm_owners'' epoch_iso = Some epoch_iso
   \<and> latest_le (Some 10) (Some 20) \<and> latest_le None (Some 20)"
proof -
  have f: "filter (\<lambda>r. entity r = ''crm_feedback_submissions'') (watermarks world_wm) \<noteq> []"
    and e: "filter (\<lambda>r. entity r = ''crm_owners'') (watermarks world_wm) = []"
    by (simp_all add: world_wm_def world0_def wm_table_def)
  from get_watermark_latest[of "''crm_feedback_submissions''" world_wm epoch_iso] f
  obtain r where r: "r \<in> set (watermarks world_wm)" "entity r = ''crm_feedback_submissions''"
     "get_watermark world_wm ''crm_feedback_submissions'' epoch_iso = watermark_value r"
     "\<forall>r'\<in>set (watermarks world_wm). entity r' = ''crm_feedback_submissions'' \<longrightarrow> latest_le (updated_at r') (updated_at r)"
    by auto
  have "watermark_value r = Some ''2024-03-03T00:00:00.000Z''"
    using r(1,2,4) by (auto simp: world_wm_def world0_def wm_table_def latest_le_def)
  moreover have "get_watermark world_wm ''crm_owners'' epoch_iso = Some epoch_iso"
    using get_watermark_latest[of "''crm_owners''" world_wm epoch_iso] e by simp
  ultimately show ?thesis using r(3) by (simp add: latest_le_def)
qed


lemma set_watermark_table:
  assumes "set_watermark E ent wm_type wm_value w = (Inr (), w')"
  shows "watermarks w' = filter (\<lambda>r. entity r \<noteq> ent) (watermarks w)
              @ [\<lparr>entity = ent, watermark_type = wm_type, watermark_value = string_column E wm_value,
                  updated_at = Some (clock E (clock_reads w))\<rparr>]"
  using assms
  by (auto simp: set_watermark_def utc_now_def spark_run_def emit_def Let_def
           split: prod.splits option.splits)

lemma filter_other_entity:
  "e' \<noteq> ent \<Longrightarrow> filter (\<lambda>r. entity r = e') (filter (\<lambda>r. entity r \<noteq> ent) rows) = filter (\<lambda>r. entity r = e') rows"
  by (induction rows) auto

lemma filter_same_entity:
  "filter (\<lambda>r. entity r = ent) (filter (\<lambda>r. entity r \<noteq> ent) rows) = []"
  by (induction rows) auto

text \<open>
  C7. After \<open>set_watermark\<close> has returned for an entity and a string value, the next
  \<open>get_watermark\<close> for that entity returns the value, whatever the table held; for
  every other entity the rows are the same as before and \<open>get_watermark\<close> returns what
  it returned before.
\<close>

theorem set_watermark_then_get:
  assumes "set_watermark E ent wm_type (JStr v) w = (Inr (), w')"
  shows "get_watermark w' ent d = Some v
     \<and> (\<forall>e' d'. e' \<noteq> ent \<longrightarrow>
           filter (\<lambda>r. entity r = e') (watermarks w') = filter (\<lambda>r. entity r = e') (watermarks w)
           \<and> get_watermark w' e' d' = get_watermark w e' d')"
proof -
  from set_watermark_table[OF assms]
  have t: "watermarks w' = filter (\<lambda>r. entity r \<noteq> ent) (watermarks w)
              @ [\<lparr>entity = ent, watermark_type = wm_type, watermark_value = Some v,
                  updated_at = Some (clock E (clock_reads w))\<rparr>]"
    by (simp add: string_column_def)
  have "get_watermark w' ent d = Some v"
    by (simp add: get_watermark_def t filter_same_entity del: filter_filter)
  moreover have "\<forall>e' d'. e' \<noteq> ent \<longrightarrow>
           filter (\<lambda>r. entity r = e') (watermarks w') = filter (\<lambda>r. entity r = e') (watermarks w)
           \<and> get_watermark w' e' d' = get_watermark w e' d'"
  proof (intro allI impI)
    fix e' d' assume ne: "e' \<noteq> ent"
    have f: "filter (\<lambda>r. entity r = e') (watermarks w') = filter (\<lambda>r. entity r = e') (watermarks w)"
      unfolding t using ne by (simp add: filter_other_entity del: filter_filter)
    show "filter (\<lambda>r. entity r = e') (watermarks w') = filter (\<lambda>r. entity r = e') (watermarks w)
           \<and> get_watermark w' e' d' = get_watermark w e' d'"
      using f by (simp only: get_watermark_def Let_def)
  qed
  ultimately show ?thesis by simp
qed

theorem set_watermark_then_get_witness:
  "get_watermark (snd (set_watermark quiet_env ''crm_feedback_submissions'' ''hs_lastmodifieddate''
        (JStr ''2024-05-05T00:00:00.000Z'') world_wm)) ''crm_feedback_submissions'' epoch_iso
     = Some ''2024-05-05T00:00:00.000Z''
   \<and> get_watermark (snd (set_watermark quiet_env ''crm_feedback_submissions'' ''hs_lastmodifieddate''
        (JStr ''2024-05-05T00:00:00.000Z'') world_wm)) ''crm_contacts'' epoch_iso
     = Some ''2024-02-02T00:00:00.000Z''"
proof -
  let ?w' = "snd (set_watermark quiet_env ''crm_feedback_submissions'' ''hs_lastmodifieddate''
        (JStr ''2024-05-05T00:00:00.000Z'') world_wm)"
  have ok: "set_watermark quiet_env ''crm_feedback_submissions'' ''hs_lastmodifieddate''
        (JStr ''2024-05-05T00:00:00.000Z'') world_wm = (Inr (), ?w')"
    by (simp add: set_watermark_def utc_now_def spark_run_def quiet_env_def demo_env_def Let_def)
  have before: "get_watermark world_wm ''crm_contacts'' epoch_iso = Some ''2024-02-02T00:00:00.000Z''"
    by (simp add: get_watermark_def world_wm_def world0_def wm_table_def)
  from set_watermark_then_get[OF ok, of epoch_iso] before
  show ?thesis by simp
qed

section \<open>Properties of the incremental load\<close>

lemma watermark_saves_append [simp]:
  "watermark_saves (xs @ ys) = watermark_saves xs @ watermark_saves ys"
  by (induction xs rule: watermark_saves.induct) simp_all

lemma watermark_saves_net: "list_all net_event evs \<Longrightarrow> watermark_saves evs = []"
  by (induction evs rule: watermark_saves.induct) simp_all

lemma hs_request_keeps_watermarks:
  assumes "hs_request E meth path ps body mr t w = (r, w')"
  shows "watermarks w' = watermarks w \<and> watermark_saves (trace w') = watermark_saves (trace w)"
  using hs_request_frame[OF assms] by (auto simp: same_stores_def watermark_saves_net)

lemma crm_search_loop_keeps_watermarks:
  assumes "crm_search_loop E object_name since_iso properties limit after out w = Some y"
  shows "watermarks (snd y) = watermarks w \<and> watermark_saves (trace (snd y)) = watermark_saves (trace w)"
proof (rule crm_search_loop.raw_induct[where P = "\<lambda>E object_name since_iso properties limit after out w y.
          watermarks (snd y) = watermarks w \<and> watermark_saves (trace (snd y)) = watermark_saves (trace w)",
        OF _ assms], goal_cases)
  case (1 loop E object_name since_iso properties limit after out w y)
  obtain a w1 where h: "hs_request E ''POST'' (''/crm/v3/objects/'' @ object_name @ ''/search'') None
            (Some (search_body since_iso properties limit after)) 6 120 w = (a, w1)"
    by (cases "hs_request E ''POST'' (''/crm/v3/objects/'' @ object_name @ ''/search'') None
            (Some (search_body since_iso properties limit after)) 6 120 w")
  note k = hs_request_keeps_watermarks[OF h]
  from "1"(2) h have "snd y = w1 \<or> (\<exists>after' out'. loop E object_name since_iso properties limit after' out' w1 = Some y)"
    by (auto split: sum.splits if_splits)
  then show ?case
  proof
    assume "snd y = w1"
    then show ?thesis using k by simp
  next
    assume "\<exists>after' out'. loop E object_name since_iso properties limit after' out' w1 = Some y"
    then obtain after' out' where "loop E object_name since_iso properties limit after' out' w1 = Some y" by blast
    from "1"(1)[OF this] k show ?thesis by simp
  qed
qed

lemma write_bronze_delta_keeps_watermarks:
  assumes "write_bronze_delta E records ent mode w = (r, w')"
  shows "watermarks w' = watermarks w \<and> watermark_saves (trace w') = watermark_saves (trace w)"
  using assms
  by (auto simp: write_bronze_delta_def utc_now_def spark_run_def emit_def py_print_def Let_def
           split: if_splits sum.splits prod.splits option.splits)

lemmas search_defs = crm_search_since_def crm_search_loop.simps search_body_def json_of_watermark_def
  get_watermark_def epoch_iso_def world_wm_def wm_table_def changed_rows_def modified_def

text \<open>
  C3. When the search of an incremental run has returned its rows and
  \<open>write_bronze_delta\<close> raises, \<open>incremental_object\<close> ends with that exception: no
  write to the watermark table is attempted, the table is as it was before the run, and
  \<open>get_watermark\<close> for the entity returns what it returned before.
\<close>

theorem sink_failure_keeps_watermark:
  assumes "crm_search_since E object_name (json_of_watermark (get_watermark w ent epoch_iso)) None 100 w
             = Some (Inr rows, w1)"
    and "write_bronze_delta E (JArr rows) ent Append w1 = (Inl e, w2)"
  shows "incremental_object E object_name ent w = Some (Inl e, w2)
       \<and> watermark_saves (trace w2) = watermark_saves (trace w)
       \<and> watermarks w2 = watermarks w
       \<and> get_watermark w2 ent d = get_watermark w ent d"
proof -
  have run: "incremental_object E object_name ent w = Some (Inl e, w2)"
    using assms by (simp add: incremental_object_def Let_def)
  have s: "watermarks w1 = watermarks w \<and> watermark_saves (trace w1) = watermark_saves (trace w)"
    using crm_search_loop_keeps_watermarks[OF assms(1)[unfolded crm_search_since_def]] by simp
  note b = write_bronze_delta_keeps_watermarks[OF assms(2)]
  have "watermarks w2 = watermarks w" using s b by simp
  then have "get_watermark w2 ent d = get_watermark w ent d" by (simp add: get_watermark_def)
  then show ?thesis using run s b by simp
qed


theorem sink_failure_keeps_watermark_witness:
  "map_option fst (incremental_object sink_down_env ''feedback_submissions'' ''crm_feedback_submissions'' world_wm)
     = Some (Inl (SparkException ''write failed''))
   \<and> map_option (\<lambda>r. get_watermark (snd r) ''crm_feedback_submissions'' epoch_iso)
        (incremental_object sink_down_env ''feedback_submissions'' ''crm_feedback_submissions'' world_wm)
     = Some (get_watermark world_wm ''crm_feedback_submissions'' epoch_iso)"
proof -
  let ?E = sink_down_env
  let ?since = "json_of_watermark (get_watermark world_wm ''crm_feedback_submissions'' epoch_iso)"
  let ?w1 = "snd (the (crm_search_since ?E ''feedback_submissions'' ?since None 100 world_wm))"
  let ?w2 = "snd (write_bronze_delta ?E (JArr changed_rows) ''crm_feedback_submissions'' Append ?w1)"
  have a1: "crm_search_since ?E ''feedback_submissions'' ?since None 100 world_wm = Some (Inr changed_rows, ?w1)"
    by (simp add: sink_down_env_def run_defs paginate_defs search_defs)
  have a2: "write_bronze_delta ?E (JArr changed_rows) ''crm_feedback_submissions'' Append ?w1
      = (Inl (SparkException ''write failed''), ?w2)"
    by (simp add: sink_down_env_def run_defs paginate_defs search_defs)
  from sink_failure_keeps_watermark[OF a1 a2, of epoch_iso]
  show ?thesis by simp
qed

lemma stamps_Cons:
  "stamps (r # rs) = (case stamp_of r of None \<Rightarrow> stamps rs | Some s \<Rightarrow> s # stamps rs)"
  by (cases "stamp_of r") (simp_all add: stamps_def)

lemma stamps_Nil [simp]: "stamps [] = []"
  by (simp add: stamps_def)

lemma well_stamped_cases:
  assumes "well_stamped r"
  obtains (skip) v where "record_lastmodified r = Inr v" "\<not> truthy v" "stamp_of r = None"
    | (str) s where "record_lastmodified r = Inr (JStr s)" "s \<noteq> []" "stamp_of r = Some s"
proof (cases "record_lastmodified r")
  case (Inl e)
  then show ?thesis using assms by (simp add: well_stamped_def)
next
  case (Inr v)
  show ?thesis
  proof (cases "\<exists>s. v = JStr s \<and> s \<noteq> []")
    case True
    then obtain s where "v = JStr s" "s \<noteq> []" by blast
    then show ?thesis using Inr by (intro str[of s]) (simp_all add: stamp_of_def)
  next
    case False
    then have "\<not> truthy v" using assms Inr by (cases v) (auto simp: well_stamped_def)
    moreover have "stamp_of r = None" using False Inr by (cases v) (auto simp: stamp_of_def)
    ultimately show ?thesis using Inr by (intro skip[of v])
  qed
qed

lemma max_lastmodified_from:
  "\<forall>r\<in>set rows. well_stamped r \<Longrightarrow> m \<noteq> [] \<Longrightarrow>
     max_lastmodified E rows (JStr m) = Inr (JStr (fold max (stamps rows) m))"
proof (induction rows arbitrary: m)
  case Nil
  then show ?case by simp
next
  case (Cons r rs)
  from Cons.prems have ws: "well_stamped r" and rest: "\<forall>r\<in>set rs. well_stamped r" by simp_all
  from ws show ?case
  proof (cases rule: well_stamped_cases)
    case (skip v)
    then show ?thesis using Cons.IH[OF rest Cons.prems(2)] by (simp add: stamps_Cons)
  next
    case (str s)
    have ne: "max m s \<noteq> []" using str(2) Cons.prems(2) by (simp add: max_def)
    have e: "(if m < s then JStr s else JStr m) = JStr (max m s)" by (auto simp: max_def)
    have "max_lastmodified E (r # rs) (JStr m) = max_lastmodified E rs (JStr (max m s))"
      using str e by simp
    also have "\<dots> = Inr (JStr (fold max (stamps rs) (max m s)))" by (rule Cons.IH[OF rest ne])
    also have "fold max (stamps rs) (max m s) = fold max (stamps (r # rs)) m"
      using str by (simp add: stamps_Cons max.commute)
    finally show ?thesis .
  qed
qed

lemma max_lastmodified_none:
  "\<forall>r\<in>set rows. well_stamped r \<Longrightarrow>
     max_lastmodified E rows JNull = Inr (case stamps rows of [] \<Rightarrow> JNull | s # ss \<Rightarrow> JStr (fold max ss s))"
proof (induction rows)
  case Nil
  then show ?case by simp
next
  case (Cons r rs)
  from Cons.prems have ws: "well_stamped r" and rest: "\<forall>r\<in>set rs. well_stamped r" by simp_all
  from ws show ?case
  proof (cases rule: well_stamped_cases)
    case (skip v)
    then show ?thesis using Cons.IH[OF rest] by (simp add: stamps_Cons)
  next
    case (str s)
    then show ?thesis using max_lastmodified_from[OF rest str(2), of E] by (simp add: stamps_Cons)
  qed
qed

lemma stamp_of_nonempty: "stamp_of r = Some s \<Longrightarrow> s \<noteq> []"
  by (auto simp: stamp_of_def split: sum.splits json.splits if_splits)

lemma stamps_nonempty: "x \<in> set (stamps rows) \<Longrightarrow> x \<noteq> []"
  by (induction rows) (auto simp: stamps_Cons dest: stamp_of_nonempty split: option.splits)

lemma max_lastmodified_Max:
  assumes "\<forall>r\<in>set rows. well_stamped r" and "stamps rows \<noteq> []"
  shows "max_lastmodified E rows JNull = Inr (JStr (Max (set (stamps rows))))"
    and "Max (set (stamps rows)) \<noteq> []"
proof -
  obtain s ss where st: "stamps rows = s # ss" using assms(2) by (cases "stamps rows") auto
  have m: "Max (set (stamps rows)) = fold max ss s" by (simp only: st Max.set_eq_fold)
  show "max_lastmodified E rows JNull = Inr (JStr (Max (set (stamps rows))))"
    using max_lastmodified_none[OF assms(1), of E] m st by simp
  have "Max (set (stamps rows)) \<in> set (stamps rows)"
    using assms(2) by (intro Max_in) simp_all
  then show "Max (set (stamps rows)) \<noteq> []" by (rule stamps_nonempty)
qed

lemma set_watermark_string:
  "\<exists>w3. set_watermark E ent wm_type (JStr v) w
            = (case spark_outcome E (spark_calls w) of None \<Rightarrow> Inr () | Some e \<Rightarrow> Inl e, w3)
     \<and> watermark_saves (trace w3) = watermark_saves (trace w) @
           [filter (\<lambda>x. entity x \<noteq> ent) (watermarks w) @
            [\<lparr>entity = ent, watermark_type = wm_type, watermark_value = Some v,
              updated_at = Some (clock E (clock_reads w))\<rparr>]]
     \<and> (spark_outcome E (spark_calls w) = None \<longrightarrow>
           watermarks w3 = filter (\<lambda>x. entity x \<noteq> ent) (watermarks w) @
            [\<lparr>entity = ent, watermark_type = wm_type, watermark_value = Some v,
              updated_at = Some (clock E (clock_reads w))\<rparr>])"
  by (cases "spark_outcome E (spark_calls w)")
     (simp_all add: set_watermark_def string_column_def utc_now_def spark_run_def Let_def)

lemma changed_rows_stamps:
  "stamps changed_rows = [''2024-03-04T00:00:00.000Z'', ''2024-03-06T00:00:00.000Z'', ''2024-03-05T00:00:00.000Z'']"
  by (simp add: stamps_def changed_rows_def modified_def stamp_of_def record_lastmodified_def or_empty_dict_def)

lemma changed_rows_max: "Max (set (stamps changed_rows)) = ''2024-03-06T00:00:00.000Z''"
  unfolding changed_rows_stamps by (simp add: less_eq_char_def less_char_def)

text \<open>
  C2 (as amended). Take an incremental run whose search returns the rows and whose
  \<open>write_bronze_delta\<close> succeeds, every row being \<open>well_stamped\<close>. When at least one
  row carries a non-empty \<^verbatim>\<open>hs_lastmodifieddate\<close>, the run writes the watermark table
  exactly once, with the entity's row replaced by one whose value is the maximum (as
  strings) of the values the rows carry, wherever in the sequence it stands; the run's
  result is that write's, and when it succeeds \<open>get_watermark\<close> for the entity returns
  that maximum. When no row carries one, the run succeeds without writing the watermark
  table, which stays as it was.
\<close>

theorem watermark_moves_to_maximum:
  assumes "crm_search_since E object_name (json_of_watermark (get_watermark w ent epoch_iso)) None 100 w
             = Some (Inr rows, w1)"
    and "write_bronze_delta E (JArr rows) ent Append w1 = (Inr (), w2)"
    and "\<forall>r\<in>set rows. well_stamped r"
  shows "\<exists>r w'. incremental_object E object_name ent w = Some (r, w')
          \<and> (if stamps rows = []
              then r = Inr () \<and> watermark_saves (trace w') = watermark_saves (trace w)
                   \<and> watermarks w' = watermarks w
              else r = (case spark_outcome E (spark_calls w2) of None \<Rightarrow> Inr () | Some e \<Rightarrow> Inl e)
                   \<and> watermark_saves (trace w') = watermark_saves (trace w) @
                        [filter (\<lambda>x. entity x \<noteq> ent) (watermarks w) @
                         [\<lparr>entity = ent, watermark_type = ''hs_lastmodifieddate'',
                           watermark_value = Some (Max (set (stamps rows))),
                           updated_at = Some (clock E (clock_reads w2))\<rparr>]]
                   \<and> (r = Inr () \<longrightarrow> get_watermark w' ent d = Some (Max (set (stamps rows)))))"
proof -
  have s: "watermarks w1 = watermarks w \<and> watermark_saves (trace w1) = watermark_saves (trace w)"
    using crm_search_loop_keeps_watermarks[OF assms(1)[unfolded crm_search_since_def]] by simp
  note b = write_bronze_delta_keeps_watermarks[OF assms(2)]
  have keep: "watermarks w2 = watermarks w" "watermark_saves (trace w2) = watermark_saves (trace w)"
    using s b by simp_all
  show ?thesis
  proof (cases "stamps rows = []")
    case True
    have mx: "max_lastmodified E rows JNull = Inr JNull"
      using max_lastmodified_none[OF assms(3), of E] True by simp
    let ?w' = "if rows \<noteq> [] then w2
               else py_print (NoNewRows ent (get_watermark w ent epoch_iso)) w2"
    have run: "incremental_object E object_name ent w = Some (Inr (), ?w')"
      using assms(1,2) mx by (simp add: incremental_object_def Let_def)
    show ?thesis
      apply (intro exI[of _ "Inr ()"] exI[of _ ?w'])
      using run True keep by simp
  next
    case False
    let ?m = "Max (set (stamps rows))"
    let ?r = "case spark_outcome E (spark_calls w2) of None \<Rightarrow> Inr () | Some e \<Rightarrow> Inl e"
    let ?tbl = "filter (\<lambda>x. entity x \<noteq> ent) (watermarks w2) @
                  [\<lparr>entity = ent, watermark_type = ''hs_lastmodifieddate'',
                    watermark_value = Some ?m, updated_at = Some (clock E (clock_reads w2))\<rparr>]"
    have rows: "rows \<noteq> []" using False by auto
    note mx = max_lastmodified_Max(1)[OF assms(3) False, of E] max_lastmodified_Max(2)[OF assms(3) False]
    from set_watermark_string[of E ent "''hs_lastmodifieddate''" ?m w2]
    obtain w3 where all: "set_watermark E ent ''hs_lastmodifieddate'' (JStr ?m) w2 = (?r, w3)
      \<and> watermark_saves (trace w3) = watermark_saves (trace w2) @ [?tbl]
      \<and> (spark_outcome E (spark_calls w2) = None \<longrightarrow> watermarks w3 = ?tbl)"
      by (rule exE)
    have sw: "set_watermark E ent ''hs_lastmodifieddate'' (JStr ?m) w2 = (?r, w3)"
      and tr: "watermark_saves (trace w3) = watermark_saves (trace w2) @ [?tbl]"
      and tb: "spark_outcome E (spark_calls w2) = None \<longrightarrow> watermarks w3 = ?tbl"
      using all by (rule conjunct1, rule conjunct2[THEN conjunct1], rule conjunct2[THEN conjunct2])
    let ?w' = "case ?r of Inl e \<Rightarrow> w3 | Inr u \<Rightarrow> py_print (WatermarkMoved ent (JStr ?m)) w3"
    have run: "incremental_object E object_name ent w = Some (?r, ?w')"
      using assms(1,2) rows mx sw
      by (simp add: incremental_object_def Let_def split: option.splits)
    have t': "watermark_saves (trace ?w') = watermark_saves (trace w) @ [?tbl]"
      using tr keep by (simp split: option.splits)
    have g: "?r = Inr () \<longrightarrow> get_watermark ?w' ent d = Some ?m"
    proof
      assume ok: "?r = Inr ()"
      then have "spark_outcome E (spark_calls w2) = None" by (simp split: option.splits)
      with tb have "watermarks w3 = ?tbl" by simp
      then have "get_watermark w3 ent d = Some ?m"
        by (simp add: get_watermark_def filter_same_entity del: filter_filter)
      then show "get_watermark ?w' ent d = Some ?m"
        using ok by (simp add: get_watermark_def split: option.splits)
    qed
    show ?thesis
      apply (intro exI[of _ ?r] exI[of _ ?w'])
      using run t' g False unfolding keep by simp
  qed
qed

theorem watermark_moves_to_maximum_witness:
  "map_option fst (incremental_object changes_env ''feedback_submissions'' ''crm_feedback_submissions'' world_wm)
     = Some (Inr ())
   \<and> map_option (\<lambda>r. get_watermark (snd r) ''crm_feedback_submissions'' epoch_iso)
        (incremental_object changes_env ''feedback_submissions'' ''crm_feedback_submissions'' world_wm)
     = Some (Some ''2024-03-06T00:00:00.000Z'')"
proof -
  let ?E = changes_env
  let ?since = "json_of_watermark (get_watermark world_wm ''crm_feedback_submissions'' epoch_iso)"
  let ?w1 = "snd (the (crm_search_since ?E ''feedback_submissions'' ?since None 100 world_wm))"
  let ?w2 = "snd (write_bronze_delta ?E (JArr changed_rows) ''crm_feedback_submissions'' Append ?w1)"
  have a1: "crm_search_since ?E ''feedback_submissions'' ?since None 100 world_wm = Some (Inr changed_rows, ?w1)"
    by (simp add: changes_env_def run_defs paginate_defs search_defs)
  have a2: "write_bronze_delta ?E (JArr changed_rows) ''crm_feedback_submissions'' Append ?w1 = (Inr (), ?w2)"
    by (simp add: changes_env_def run_defs paginate_defs search_defs)
  have a3: "\<forall>r\<in>set changed_rows. well_stamped r"
    by (simp add: changed_rows_def modified_def well_stamped_def record_lastmodified_def or_empty_dict_def)
  have a4: "stamps changed_rows \<noteq> []" by (simp add: changed_rows_stamps)
  have sp: "spark_outcome ?E (spark_calls ?w2) = None" by (simp add: changes_env_def demo_env_def)
  from watermark_moves_to_maximum[OF a1 a2 a3, of epoch_iso] a4
  obtain r w' where "incremental_object ?E ''feedback_submissions'' ''crm_feedback_submissions'' world_wm = Some (r, w')
       \<and> r = (case spark_outcome ?E (spark_calls ?w2) of None \<Rightarrow> Inr () | Some e \<Rightarrow> Inl e)
       \<and> (r = Inr () \<longrightarrow> get_watermark w' ''crm_feedback_submissions'' epoch_iso = Some (Max (set (stamps changed_rows))))"
    by (simp only: if_False) (elim exE conjE, rule that, intro conjI)
  then show ?thesis unfolding sp changed_rows_max by simp
qed

text \<open>
  C2 (as stated) fails: two rows are fetched and written, neither carries
  \<^verbatim>\<open>hs_lastmodifieddate\<close>, and the run ends well without a write to the watermark
  table, whose entry for the entity stays what it was.
\<close>

theorem watermark_not_set_counterexample:
  "map_option fst (incremental_object unstamped_env ''feedback_submissions'' ''crm_feedback_submissions'' world_wm)
     = Some (Inr ())
   \<and> map_option (\<lambda>r. map raw (bronze (snd r) ''dbfs:/bronze/crm_feedback_submissions''))
        (incremental_object unstamped_env ''feedback_submissions'' ''crm_feedback_submissions'' world_wm)
     = Some [rec_id ''1'', rec_id ''2'']
   \<and> map_option (\<lambda>r. watermark_saves (trace (snd r)))
        (incremental_object unstamped_env ''feedback_submissions'' ''crm_feedback_submissions'' world_wm)
     = Some []
   \<and> map_option (\<lambda>r. get_watermark (snd r) ''crm_feedback_submissions'' epoch_iso)
        (incremental_object unstamped_env ''feedback_submissions'' ''crm_feedback_submissions'' world_wm)
     = Some (Some ''2024-03-03T00:00:00.000Z'')"
  by (simp add: incremental_object_def unstamped_env_def run_defs paginate_defs search_defs
        record_lastmodified_def desc_nulls_last_def)

section \<open>Properties of the full load\<close>

lemma revenue_loop_acc:
  "revenue_loop E cs out w = (case revenue_loop E cs [] w of (Inl e, w') \<Rightarrow> (Inl e, w') | (Inr new, w') \<Rightarrow> (Inr (out @ new), w'))"
proof (induction cs arbitrary: out w)
  case Nil
  show ?case by simp
next
  case (Cons c cs)
  note ih = Cons.IH
  show ?case
    apply (simp split: sum.splits prod.splits)
    apply (intro allI impI conjI)
    apply (auto simp: ih[of out] ih[of "out @ [_]"] ih[of "[_]"] split: sum.splits prod.splits)
    done
qed


lemma revenue_loop_append:
  "revenue_loop E (xs @ ys) out w =
     (case revenue_loop E xs out w of (Inl e, w') \<Rightarrow> (Inl e, w') | (Inr out', w') \<Rightarrow> revenue_loop E ys out' w')"
  by (induction xs arbitrary: out w) (auto split: sum.splits prod.splits)

lemma revenue_loop_trace:
  "revenue_loop E cs out w = (r, w') \<Longrightarrow> \<exists>evs. trace w' = trace w @ evs"
proof (induction cs arbitrary: out w)
  case Nil
  then show ?case by simp
next
  case (Cons c cs)
  show ?case
  proof (cases "py_get c ''id''")
    case (Inl e)
    then show ?thesis using Cons.prems by simp
  next
    case (Inr guid)
    show ?thesis
    proof (cases "truthy guid")
      case False
      then show ?thesis using Cons.prems Inr Cons.IH by simp
    next
      case True
      obtain a w1 where h: "hs_request E ''GET''
            (''/marketing/v3/campaigns/'' @ py_str E guid @ ''/reports/revenue'') (Some []) None 6 120 w = (a, w1)"
        by (cases "hs_request E ''GET''
            (''/marketing/v3/campaigns/'' @ py_str E guid @ ''/reports/revenue'') (Some []) None 6 120 w")
      from hs_request_frame[OF h] obtain evs1 where t1: "trace w1 = trace w @ evs1" by blast
      have "\<exists>out2 w2 evs2. revenue_loop E cs out2 w2 = (r, w') \<and> trace w2 = trace w1 @ evs2"
      proof (cases a)
        case failed: (Inl e)
        then have "revenue_loop E cs out (py_print (RevenueFetchFailed guid e) w1) = (r, w')"
          using Cons.prems Inr True h by simp
        then show ?thesis
          by (intro exI[of _ out] exI[of _ "py_print (RevenueFetchFailed guid e) w1"]
                exI[of _ "[Print (RevenueFetchFailed guid e)]"]) simp
      next
        case fetched: (Inr revenue)
        show ?thesis
        proof (cases "py_setitem revenue ''_campaignGuid'' guid")
          case bad: (Inl e)
          then have "revenue_loop E cs out (py_print (RevenueFetchFailed guid e) w1) = (r, w')"
            using Cons.prems Inr True h fetched by simp
          then show ?thesis
            by (intro exI[of _ out] exI[of _ "py_print (RevenueFetchFailed guid e) w1"]
                  exI[of _ "[Print (RevenueFetchFailed guid e)]"]) simp
        next
          case good: (Inr revenue')
          then have "revenue_loop E cs (out @ [revenue']) w1 = (r, w')"
            using Cons.prems Inr True h fetched by simp
          then show ?thesis
            by (intro exI[of _ "out @ [revenue']"] exI[of _ w1] exI[of _ "[]"]) simp
        qed
      qed
      then obtain out2 w2 evs2 where "revenue_loop E cs out2 w2 = (r, w')" "trace w2 = trace w1 @ evs2" by blast
      with Cons.IH[of out2 w2] t1 show ?thesis by auto
    qed
  qed
qed

text \<open>
  C9. In \<open>load_campaign_revenue\<close>, take a campaign \<open>c\<close> with an id, between the
  campaigns \<open>pre\<close>, whose loop has collected \<open>out1\<close>, and the campaigns \<open>post\<close>, whose
  loop collects \<open>out2\<close> afterwards. When the revenue request of \<open>c\<close> fails (or its
  result cannot take the campaign id), the failure is caught and printed and the batch
  handed to \<open>write_bronze_delta\<close> is \<open>out1 @ out2\<close>: the results of all the other
  campaigns. When it succeeds, its result, tagged with the campaign id, stands in the
  batch between them. With no campaign the batch is empty.
\<close>

theorem campaign_revenue_batch:
  assumes "revenue_loop E pre [] w = (Inr out1, w1)"
    and "py_get c ''id'' = Inr guid" and "truthy guid"
    and "hs_request E ''GET'' (''/marketing/v3/campaigns/'' @ py_str E guid @ ''/reports/revenue'')
           (Some []) None 6 120 w1 = (res, w2)"
    and "outcome = (case res of Inl e \<Rightarrow> Inl e | Inr revenue \<Rightarrow> py_setitem revenue ''_campaignGuid'' guid)"
    and "revenue_loop E post []
           (case outcome of Inl e \<Rightarrow> py_print (RevenueFetchFailed guid e) w2 | Inr tagged \<Rightarrow> w2)
           = (Inr out2, w3)"
  shows "load_campaign_revenue E (pre @ c # post) w
           = write_bronze_delta E
               (JArr (out1 @ (case outcome of Inl e \<Rightarrow> [] | Inr tagged \<Rightarrow> [tagged]) @ out2))
               ''marketing_campaign_revenue'' Overwrite w3
         \<and> (case outcome of
               Inl e \<Rightarrow> Print (RevenueFetchFailed guid e) \<in> set (trace w3)
             | Inr tagged \<Rightarrow> True)
         \<and> load_campaign_revenue E [] w
              = write_bronze_delta E (JArr []) ''marketing_campaign_revenue'' Overwrite w"
proof -
  let ?mid = "case outcome of Inl e \<Rightarrow> [] | Inr tagged \<Rightarrow> [tagged]"
  let ?w = "case outcome of Inl e \<Rightarrow> py_print (RevenueFetchFailed guid e) w2 | Inr tagged \<Rightarrow> w2"
  have "revenue_loop E (c # post) out1 w1 = revenue_loop E post (out1 @ ?mid) ?w"
    using assms(2,3,4,5) by (auto split: sum.splits)
  also have "\<dots> = (Inr ((out1 @ ?mid) @ out2), w3)"
    by (subst revenue_loop_acc) (simp add: assms(6))
  finally have "revenue_loop E (pre @ c # post) [] w = (Inr (out1 @ ?mid @ out2), w3)"
    by (simp add: revenue_loop_append assms(1))
  then have batch: "load_campaign_revenue E (pre @ c # post) w
           = write_bronze_delta E (JArr (out1 @ ?mid @ out2)) ''marketing_campaign_revenue'' Overwrite w3"
    by (simp add: load_campaign_revenue_def)
  have logged: "case outcome of
               Inl e \<Rightarrow> Print (RevenueFetchFailed guid e) \<in> set (trace w3)
             | Inr tagged \<Rightarrow> True"
  proof (cases outcome)
    case (Inl e)
    with revenue_loop_trace[OF assms(6)] show ?thesis by auto
  next
    case (Inr tagged)
    then show ?thesis by simp
  qed
  have "load_campaign_revenue E [] w
              = write_bronze_delta E (JArr []) ''marketing_campaign_revenue'' Overwrite w"
    by (simp add: load_campaign_revenue_def)
  with batch logged show ?thesis by simp
qed

theorem campaign_revenue_batch_witness:
  "fst (load_campaign_revenue revenue_env three_campaigns world0) = Inr ()
   \<and> map raw (bronze (snd (load_campaign_revenue revenue_env three_campaigns world0))
                 ''dbfs:/bronze/marketing_campaign_revenue'')
       = [JObj [(''revenueAmount'', JInt 10), (''_campaignGuid'', JStr ''c1'')],
          JObj [(''revenueAmount'', JInt 30), (''_campaignGuid'', JStr ''c3'')]]
   \<and> Print (RevenueFetchFailed (JStr ''c2'')
         (HubSpotApiError 404 ''/marketing/v3/campaigns/c2/reports/revenue'' ''not found''))
       \<in> set (trace (snd (load_campaign_revenue revenue_env three_campaigns world0)))"
proof -
  let ?E = revenue_env
  let ?path = "''/marketing/v3/campaigns/'' @ py_str ?E (JStr ''c2'') @ ''/reports/revenue''"
  let ?e = "HubSpotApiError 404 ?path ''not found''"
  let ?r1 = "JObj [(''revenueAmount'', JInt 10), (''_campaignGuid'', JStr ''c1'')]"
  let ?r3 = "JObj [(''revenueAmount'', JInt 30), (''_campaignGuid'', JStr ''c3'')]"
  let ?w1 = "snd (revenue_loop ?E [rec_id ''c1''] [] world0)"
  let ?w2 = "snd (hs_request ?E ''GET'' ?path (Some []) None 6 120 ?w1)"
  let ?w3 = "snd (revenue_loop ?E [rec_id ''c3''] [] (py_print (RevenueFetchFailed (JStr ''c2'') ?e) ?w2))"
  have a1: "revenue_loop ?E [rec_id ''c1''] [] world0 = (Inr [?r1], ?w1)"
    by (simp add: revenue_env_def run_defs revenue_of_def)
  have a2: "py_get (rec_id ''c2'') ''id'' = Inr (JStr ''c2'')" "truthy (JStr ''c2'')"
    by (simp_all add: rec_id_def)
  have a4: "hs_request ?E ''GET'' ?path (Some []) None 6 120 ?w1 = (Inl ?e, ?w2)"
    by (simp add: revenue_env_def run_defs revenue_of_def not_found_def)
  have a5: "Inl ?e = (case (Inl ?e :: error + json) of Inl e \<Rightarrow> Inl e
                      | Inr revenue \<Rightarrow> py_setitem revenue ''_campaignGuid'' (JStr ''c2''))"
    by simp
  have a6: "revenue_loop ?E [rec_id ''c3''] []
      (case (Inl ?e :: error + json) of Inl e \<Rightarrow> py_print (RevenueFetchFailed (JStr ''c2'') e) ?w2
       | Inr tagged \<Rightarrow> ?w2) = (Inr [?r3], ?w3)"
    by (simp add: revenue_env_def run_defs revenue_of_def not_found_def)
  from campaign_revenue_batch[OF a1 a2 a4 a5 a6]
  have b: "load_campaign_revenue ?E ([rec_id ''c1''] @ rec_id ''c2'' # [rec_id ''c3'']) world0
      = write_bronze_delta ?E (JArr ([?r1] @ [] @ [?r3])) ''marketing_campaign_revenue'' Overwrite ?w3"
    and l: "Print (RevenueFetchFailed (JStr ''c2'') ?e) \<in> set (trace ?w3)"
    by simp_all
  have b': "load_campaign_revenue ?E three_campaigns world0
      = write_bronze_delta ?E (JArr [?r1, ?r3]) ''marketing_campaign_revenue'' Overwrite ?w3"
    using b by (simp add: three_campaigns_def)
  have p: "?path = ''/marketing/v3/campaigns/c2/reports/revenue''" by (simp add: py_str_def)
  have t: "\<exists>evs. trace (snd (write_bronze_delta ?E (JArr [?r1, ?r3]) ''marketing_campaign_revenue'' Overwrite ?w3))
      = trace ?w3 @ evs"
    by (simp add: write_bronze_delta_def rows_of_record_def utc_now_def spark_run_def py_print_def Let_def
          revenue_env_def demo_env_def split: prod.splits option.splits)
  have logged: "Print (RevenueFetchFailed (JStr ''c2'') ?e)
       \<in> set (trace (snd (load_campaign_revenue ?E three_campaigns world0)))"
    using l t unfolding b' by auto
  let ?path1 = "''/marketing/v3/campaigns/'' @ py_str ?E (JStr ''c1'') @ ''/reports/revenue''"
  let ?v1 = "snd (hs_request ?E ''GET'' ?path1 (Some []) None 6 120 world0)"
  let ?v3 = "snd (revenue_loop ?E [rec_id ''c2'', rec_id ''c3''] [] ?v1)"
  have s1: "revenue_loop ?E [] [] world0 = (Inr [], world0)" by simp
  have s2: "py_get (rec_id ''c1'') ''id'' = Inr (JStr ''c1'')" "truthy (JStr ''c1'')"
    by (simp_all add: rec_id_def)
  have s4: "hs_request ?E ''GET'' ?path1 (Some []) None 6 120 world0
      = (Inr (JObj [(''revenueAmount'', JInt 10)]), ?v1)"
    by (simp add: revenue_env_def run_defs revenue_of_def)
  have s5: "Inr ?r1 = (case (Inr (JObj [(''revenueAmount'', JInt 10)]) :: error + json) of Inl e \<Rightarrow> Inl e
                      | Inr revenue \<Rightarrow> py_setitem revenue ''_campaignGuid'' (JStr ''c1''))"
    by simp
  have s6: "revenue_loop ?E [rec_id ''c2'', rec_id ''c3''] []
      (case (Inr ?r1 :: error + json) of Inl e \<Rightarrow> py_print (RevenueFetchFailed (JStr ''c1'') e) ?v1
       | Inr tagged \<Rightarrow> ?v1) = (Inr [?r3], ?v3)"
    by (simp add: revenue_env_def run_defs revenue_of_def not_found_def)
  from campaign_revenue_batch[OF s1 s2 s4 s5 s6]
  have c: "load_campaign_revenue ?E ([] @ rec_id ''c1'' # [rec_id ''c2'', rec_id ''c3'']) world0
      = write_bronze_delta ?E (JArr ([] @ [?r1] @ [?r3])) ''marketing_campaign_revenue'' Overwrite ?v3"
    by simp
  have c': "load_campaign_revenue ?E three_campaigns world0
      = write_bronze_delta ?E (JArr [?r1, ?r3]) ''marketing_campaign_revenue'' Overwrite ?v3"
    using c by (simp add: three_campaigns_def)
  have written: "fst (load_campaign_revenue ?E three_campaigns world0) = Inr ()
     \<and> map raw (bronze (snd (load_campaign_revenue ?E three_campaigns world0))
                 ''dbfs:/bronze/marketing_campaign_revenue'') = [?r1, ?r3]"
    unfolding c' by (simp add: revenue_env_def run_defs revenue_of_def not_found_def)
  show ?thesis using written logged unfolding p by simp
qed

lemma run_script_append:
  "run_script (pre @ post) w =
     (case run_script pre w of None \<Rightarrow> None | Some (Inl e, w1) \<Rightarrow> Some (Inl e, w1)
      | Some (Inr u, w1) \<Rightarrow> run_script post w1)"
  by (induction pre arbitrary: w) (auto split: option.splits sum.splits prod.splits)

text \<open>
  C4 (as amended). The statements of the full-load notebook run in order with no handler
  around them: when the load of one entity raises, the run ends with that exception in
  the state the failing load left, so the loads before it are complete and none of the
  entities after it is attempted.
\<close>

theorem full_load_stops_at_failure:
  assumes "full_load_steps E = pre @ s # post"
    and "run_script pre w = Some (Inr (), w1)"
    and "s w1 = Some (Inl e, w2)"
  shows "full_load E w = Some (Inl e, w2)"
  using assms by (simp add: full_load_def run_script_append)

theorem full_load_stops_at_failure_witness:
  "map_option fst (full_load abort_env world0)
     = Some (Inl (HubSpotApiError 404 ''/crm/v3/objects/marketing_events'' ''not found''))"
proof -
  let ?E = abort_env
  let ?w1 = "snd (the (load_owners ?E world0))"
  let ?e = "HubSpotApiError 404 ''/crm/v3/objects/marketing_events'' ''not found''"
  let ?w2 = "snd (the (load_crm_object ?E ''marketing_events'' ''crm_marketing_events'' ?w1))"
  have steps: "full_load_steps ?E = [load_owners ?E] @ load_crm_object ?E ''marketing_events'' ''crm_marketing_events''
       # tl (tl (full_load_steps ?E))"
    by (simp add: full_load_steps_def)
  have a1: "run_script [load_owners ?E] world0 = Some (Inr (), ?w1)"
    by (simp add: load_owners_def abort_env_def run_defs paginate_defs not_found_def)
  have a2: "load_crm_object ?E ''marketing_events'' ''crm_marketing_events'' ?w1 = Some (Inl ?e, ?w2)"
    by (simp add: load_owners_def load_crm_object_def abort_env_def run_defs paginate_defs not_found_def)
  have "full_load ?E world0 = Some (Inl ?e, ?w2)"
    by (rule full_load_stops_at_failure[OF steps a1 a2])
  then show ?thesis by simp
qed

text \<open>
  C4 (as stated) fails: when the second entity gets a 404, the run ends with that error
  after two API calls; the third entity, whose answer would have been a good page, is
  never asked for and its table stays empty.
\<close>

theorem full_load_siblings_counterexample:
  "map_option fst (full_load abort_env world0)
     = Some (Inl (HubSpotApiError 404 ''/crm/v3/objects/marketing_events'' ''not found''))
   \<and> map_option (\<lambda>r. api_calls (snd r)) (full_load abort_env world0) = Some 2
   \<and> map_option (\<lambda>r. bronze (snd r) ''dbfs:/bronze/crm_feedback_submissions'') (full_load abort_env world0) = Some []
   \<and> api_endpoint abort_env 2 = Inr (page (last_page_of [rec_id ''r'']))"
  by (simp add: full_load_def full_load_steps_def load_owners_def load_crm_object_def
        abort_env_def run_defs paginate_defs not_found_def)

end
